theory Spec2Isabelle
  imports Complex_Main "HOL-Library.Word" "HOL-Library.Log_Nat"
begin

unbundle bit_operations_syntax

section \<open>Machine types\<close>

text \<open>
  The driver works on Arduino's \<^verbatim>\<open>byte\<close> (8 bits, unsigned) and on \<^verbatim>\<open>uint16_t\<close> and
  \<^verbatim>\<open>uint32_t\<close>. They are words of that width, so shifts drop what leaves the word and
  casts keep the low bits.
\<close>

type_synonym byte = "8 word"
type_synonym uint16_t = "16 word"
type_synonym uint32_t = "32 word"

section \<open>The I2C port\<close>

text \<open>
  \<^verbatim>\<open>_i2cPort\<close> is a \<^verbatim>\<open>TwoWire\<close> of the Wire library, which is not part of the sources:
  the driver only calls \<^verbatim>\<open>beginTransmission\<close>, \<^verbatim>\<open>write\<close>, \<^verbatim>\<open>endTransmission\<close>,
  \<^verbatim>\<open>requestFrom\<close> and \<^verbatim>\<open>read\<close> on it. The record below is the state those calls act on.

  \<^item> \<open>incoming n\<close> is what the device has ready when the \<open>n\<close>-th \<^verbatim>\<open>requestFrom\<close> of the
    run arrives (an arbitrary function: every behaviour of the device is some
    \<open>incoming\<close>); \<open>requests\<close> counts the calls made so far.
  \<^item> \<open>rxBuffer\<close> holds the bytes of the last \<^verbatim>\<open>requestFrom\<close> that \<^verbatim>\<open>read\<close> has not taken yet.
  \<^item> \<open>txAddress\<close> and \<open>txBuffer\<close> are the transmission being assembled, \<open>sent\<close> the
    transmissions completed, oldest first.
  \<^item> \<open>elapsed\<close> adds up the arguments of \<^verbatim>\<open>delay\<close>, the time spent waiting.
\<close>

record TwoWire =
  incoming :: "nat \<Rightarrow> byte list"
  requests :: nat
  rxBuffer :: "byte list"
  txAddress :: byte
  txBuffer :: "byte list"
  sent :: "(byte \<times> byte list) list"
  elapsed :: nat

definition beginTransmission :: "byte \<Rightarrow> TwoWire \<Rightarrow> TwoWire" where
  "beginTransmission address w = w\<lparr>txAddress := address, txBuffer := []\<rparr>"

text \<open>\<^verbatim>\<open>write\<close> is a keyword of Isabelle, hence the suffix.\<close>

definition write_byte :: "byte \<Rightarrow> TwoWire \<Rightarrow> TwoWire" where
  "write_byte b w = w\<lparr>txBuffer := txBuffer w @ [b]\<rparr>"

definition endTransmission :: "TwoWire \<Rightarrow> TwoWire" where
  "endTransmission w = w\<lparr>sent := sent w @ [(txAddress w, txBuffer w)], txBuffer := []\<rparr>"

text \<open>
  \<^verbatim>\<open>requestFrom(address, quantity)\<close> returns the number of bytes received, at most
  \<open>quantity\<close>, and makes them available to \<^verbatim>\<open>read\<close>. The driver stores the count in a
  \<^verbatim>\<open>byte\<close>.
\<close>

definition requestFrom :: "byte \<Rightarrow> nat \<Rightarrow> TwoWire \<Rightarrow> byte \<times> TwoWire" where
  "requestFrom address quantity w =
     (let bs = take quantity (incoming w (requests w))
      in (of_nat (length bs), w\<lparr>rxBuffer := bs, requests := Suc (requests w)\<rparr>))"

text \<open>
  \<^verbatim>\<open>read()\<close> returns the next byte of the buffer; on an empty buffer it returns the
  \<^verbatim>\<open>int\<close> \<open>-1\<close>, which the driver's \<^verbatim>\<open>byte\<close> variables keep as \<open>0xFF\<close>.
\<close>

definition read :: "TwoWire \<Rightarrow> byte \<times> TwoWire" where
  "read w = (case rxBuffer w of [] \<Rightarrow> (0xFF, w) | b # bs \<Rightarrow> (b, w\<lparr>rxBuffer := bs\<rparr>))"

definition delay :: "nat \<Rightarrow> TwoWire \<Rightarrow> TwoWire" where
  "delay ms w = w\<lparr>elapsed := elapsed w + ms\<rparr>"

section \<open>Constants\<close>

text \<open>
  The header \<^verbatim>\<open>SparkFunHTU21D.h\<close> is not among the sources. The bus address and the four
  command bytes it defines are therefore parameters of every function below: a value of
  type \<open>header\<close> carries them, and every theorem holds for all of them.
\<close>

record header =
  HTU21D_ADDRESS :: byte
  TRIGGER_HUMD_MEASURE_NOHOLD :: byte
  TRIGGER_TEMP_MEASURE_NOHOLD :: byte
  WRITE_USER_REG :: byte
  READ_USER_REG :: byte

text \<open>
  The two error codes come from the same header; their values are the ones the comments
  above \<^verbatim>\<open>readHumidity\<close> and \<^verbatim>\<open>readTemperature\<close> give (\<^verbatim>\<open>Returns 998 if I2C timed out\<close>,
  \<^verbatim>\<open>Returns 999 if CRC is wrong\<close>).
\<close>

definition ERROR_I2C_TIMEOUT :: uint16_t where
  "ERROR_I2C_TIMEOUT = 998"

definition ERROR_BAD_CRC :: uint16_t where
  "ERROR_BAD_CRC = 999"

definition MAX_WAIT :: nat where
  "MAX_WAIT = 100"

definition DELAY_INTERVAL :: nat where
  "DELAY_INTERVAL = 10"

definition MAX_COUNTER :: nat where
  "MAX_COUNTER = MAX_WAIT div DELAY_INTERVAL"

definition SHIFTED_DIVISOR :: uint32_t where
  "SHIFTED_DIVISOR = 0x988000"

section \<open>checkCRC\<close>

text \<open>
  The \<^verbatim>\<open>for\<close> loop of \<^verbatim>\<open>checkCRC\<close>: \<open>crc_loop n i remainder divsor\<close> runs the \<open>n\<close>
  iterations that start at index \<open>i\<close>. In C, \<^verbatim>\<open>remainder & (uint32_t)1 << (23 - i)\<close> shifts
  first and masks second.
\<close>

fun crc_loop :: "nat \<Rightarrow> nat \<Rightarrow> uint32_t \<Rightarrow> uint32_t \<Rightarrow> uint32_t" where
  "crc_loop 0 i remainder divsor = remainder"
| "crc_loop (Suc n) i remainder divsor =
     crc_loop n (i + 1)
       (if remainder AND push_bit (23 - i) 1 \<noteq> 0 then remainder XOR divsor else remainder)
       (drop_bit 1 divsor)"

definition checkCRC :: "uint16_t \<Rightarrow> byte \<Rightarrow> byte" where
  "checkCRC message_from_sensor check_value_from_sensor =
     (let remainder = push_bit 8 (ucast message_from_sensor :: uint32_t);
          remainder = remainder OR ucast check_value_from_sensor;
          divsor = SHIFTED_DIVISOR
      in ucast (crc_loop 16 0 remainder divsor))"

section \<open>readValue\<close>

text \<open>
  The polling loop of \<^verbatim>\<open>readValue\<close>, entered with \<open>counter = 0\<close> and \<open>toRead = 0\<close>. It
  returns the two variables as the loop leaves them, since the code tests \<open>counter\<close>
  afterwards. \<open>counter\<close> is a \<^verbatim>\<open>byte\<close>; the comparison with \<open>MAX_COUNTER\<close> is on its value.
\<close>

function poll :: "header \<Rightarrow> byte \<Rightarrow> byte \<Rightarrow> TwoWire \<Rightarrow> byte \<times> byte \<times> TwoWire" where
  "poll h counter toRead w =
     (if unat counter < MAX_COUNTER \<and> toRead \<noteq> 3
      then (let w1 = delay DELAY_INTERVAL w;
                (n, w2) = requestFrom (HTU21D_ADDRESS h) 3 w1
            in poll h (counter + 1) n w2)
      else (counter, toRead, w))"
  by pat_completeness auto
termination
proof (relation "measure (\<lambda>(h, counter, toRead, w). MAX_COUNTER - unat counter)")
  show "wf (measure (\<lambda>(h, counter, toRead, w). MAX_COUNTER - unat counter))"
    by simp
next
  fix h :: header and counter toRead n :: byte and w w1 w2 :: TwoWire
  assume running: "unat counter < MAX_COUNTER \<and> toRead \<noteq> 3"
  then have "unat counter < 10"
    by (simp add: MAX_COUNTER_def MAX_WAIT_def DELAY_INTERVAL_def)
  then have "unat (counter + 1) = unat counter + 1"
    by (simp add: unat_word_ariths)
  with running show "((h, counter + 1, n, w2), h, counter, toRead, w)
      \<in> measure (\<lambda>(h, counter, toRead, w). MAX_COUNTER - unat counter)"
    by auto
qed

declare poll.simps [simp del]

definition readValue :: "header \<Rightarrow> byte \<Rightarrow> TwoWire \<Rightarrow> uint16_t \<times> TwoWire" where
  "readValue h cmd w =
     (let w = beginTransmission (HTU21D_ADDRESS h) w;
          w = write_byte cmd w;
          w = endTransmission w;
          (counter, toRead, w) = poll h 0 0 w
      in if unat counter = MAX_COUNTER then (ERROR_I2C_TIMEOUT, w)
         else (let (msb, w) = read w;
                   (lsb, w) = read w;
                   (checksum, w) = read w;
                   rawValue = push_bit 8 (ucast msb :: uint16_t) OR ucast lsb
               in if checkCRC rawValue checksum \<noteq> 0 then (ERROR_BAD_CRC, w)
                  else (rawValue AND 0xFFFC, w)))"

text \<open>
  \<^verbatim>\<open>readValue\<close> has three \<^verbatim>\<open>return\<close> statements. \<open>readValue_exit\<close> follows the same
  control flow and reports which one is taken: the time-out at line 83, the checksum error
  at line 92, or the measurement at line 94 (with \<^verbatim>\<open>rawValue\<close> as it is before the
  status bits are masked). The names of the two failures are the specification's.
\<close>

datatype exit = Timeout | CrcMismatch | Measured uint16_t

definition readValue_exit :: "header \<Rightarrow> byte \<Rightarrow> TwoWire \<Rightarrow> exit" where
  "readValue_exit h cmd w =
     (let w = beginTransmission (HTU21D_ADDRESS h) w;
          w = write_byte cmd w;
          w = endTransmission w;
          (counter, toRead, w) = poll h 0 0 w
      in if unat counter = MAX_COUNTER then Timeout
         else (let (msb, w) = read w;
                   (lsb, w) = read w;
                   (checksum, w) = read w;
                   rawValue = push_bit 8 (ucast msb :: uint16_t) OR ucast lsb
               in if checkCRC rawValue checksum \<noteq> 0 then CrcMismatch
                  else Measured rawValue))"

section \<open>Floating point\<close>

text \<open>
  \<^verbatim>\<open>readHumidity\<close> and \<^verbatim>\<open>readTemperature\<close> compute in \<^verbatim>\<open>double\<close> (the literals
  \<^verbatim>\<open>125.0\<close>, \<^verbatim>\<open>65536.0\<close>, \<^verbatim>\<open>175.72\<close>, \<^verbatim>\<open>46.85\<close>, \<^verbatim>\<open>6.0\<close> are doubles, and the other
  operand is converted) and store each result in a \<^verbatim>\<open>float\<close>. On the target of this
  repository, a Particle board with an ARM core, \<^verbatim>\<open>float\<close> is IEEE 754 binary32 and
  \<^verbatim>\<open>double\<close> is binary64, and every operation and every conversion rounds to nearest,
  ties to even.

  A finite floating-point number is a rational, so a value of either type is a \<open>rat\<close>,
  and an operation is the exact operation followed by \<open>round_to\<close>. A format is its
  precision (bits of the significand, the hidden one included) and the exponent of its
  smallest normal number, below which the spacing stays that of the subnormals. Overflow
  is not modelled: the numbers of this driver stay below \<open>2 ^ 17\<close>.
\<close>

record format =
  precision :: nat
  emin :: int

definition binary32 :: format where
  "binary32 = \<lparr>precision = 24, emin = - 126\<rparr>"

definition binary64 :: format where
  "binary64 = \<lparr>precision = 53, emin = - 1022\<rparr>"

text \<open>\<open>ilog2 x\<close> is the exponent of \<open>x \<noteq> 0\<close>: the \<open>e\<close> with \<open>2\<^sup>e \<le> \<bar>x\<bar> < 2\<^sup>e\<^sup>+\<^sup>1\<close>.\<close>

definition ilog2 :: "rat \<Rightarrow> int" where
  "ilog2 x =
     (let (n, d) = quotient_of \<bar>x\<bar>;
          k = bitlen n - bitlen d
      in if 2 powi k \<le> \<bar>x\<bar> then k else k - 1)"

text \<open>Rounding to the nearest integer, a tie going to the even one.\<close>

definition rne :: "rat \<Rightarrow> int" where
  "rne y =
     (let f = \<lfloor>y\<rfloor>;
          r = y - of_int f
      in if r < 1 / 2 then f
         else if 1 / 2 < r then f + 1
         else if even f then f else f + 1)"

definition round_to :: "format \<Rightarrow> rat \<Rightarrow> rat" where
  "round_to fmt x =
     (if x = 0 then 0
      else (let e = max (ilog2 x) (emin fmt);
                q = 2 powi (e - int (precision fmt) + 1)
            in of_int (rne (x / q)) * q))"

definition to_float :: "rat \<Rightarrow> rat" where
  "to_float x = round_to binary32 x"

definition to_double :: "rat \<Rightarrow> rat" where
  "to_double x = round_to binary64 x"

section \<open>readHumidity and readTemperature\<close>

text \<open>
  The arithmetic of \<^verbatim>\<open>readHumidity\<close> (lines 109 and 110) as a function of the raw value; it
  is named after the variable it computes. \<open>to_double\<close> is applied to every literal
  and to every result of a \<^verbatim>\<open>double\<close> operation, \<open>to_float\<close> where the code assigns to a
  \<^verbatim>\<open>float\<close>. The conversion of the 16-bit raw value to \<^verbatim>\<open>double\<close> is exact.
\<close>

definition rh :: "uint16_t \<Rightarrow> rat" where
  "rh rawHumidity =
     (let tempRH = to_float (to_double
            (of_nat (unat rawHumidity) * to_double (to_double 125.0 / to_double 65536.0)))
      in to_float (to_double (tempRH - to_double 6.0)))"

text \<open>The same for lines 127 and 128 of \<^verbatim>\<open>readTemperature\<close>.\<close>

definition realTemperature :: "uint16_t \<Rightarrow> rat" where
  "realTemperature rawTemperature =
     (let tempTemperature = to_float (to_double
            (of_nat (unat rawTemperature) * to_double (to_double 175.72 / to_double 65536.0)))
      in to_float (to_double (tempTemperature - to_double 46.85)))"

text \<open>
  Both functions return a \<^verbatim>\<open>float\<close>. \<^verbatim>\<open>return(rawHumidity)\<close> converts the 16-bit error
  code to that type.
\<close>

definition readHumidity :: "header \<Rightarrow> TwoWire \<Rightarrow> rat \<times> TwoWire" where
  "readHumidity h w =
     (let (rawHumidity, w) = readValue h (TRIGGER_HUMD_MEASURE_NOHOLD h) w
      in if rawHumidity = ERROR_I2C_TIMEOUT \<or> rawHumidity = ERROR_BAD_CRC
         then (to_float (of_nat (unat rawHumidity)), w)
         else (rh rawHumidity, w))"

definition readTemperature :: "header \<Rightarrow> TwoWire \<Rightarrow> rat \<times> TwoWire" where
  "readTemperature h w =
     (let (rawTemperature, w) = readValue h (TRIGGER_TEMP_MEASURE_NOHOLD h) w
      in if rawTemperature = ERROR_I2C_TIMEOUT \<or> rawTemperature = ERROR_BAD_CRC
         then (to_float (of_nat (unat rawTemperature)), w)
         else (realTemperature rawTemperature, w))"

section \<open>The user register\<close>

definition readUserRegister :: "header \<Rightarrow> TwoWire \<Rightarrow> byte \<times> TwoWire" where
  "readUserRegister h w =
     (let w = beginTransmission (HTU21D_ADDRESS h) w;
          w = write_byte (READ_USER_REG h) w;
          w = endTransmission w;
          (n, w) = requestFrom (HTU21D_ADDRESS h) 1 w;
          (userRegister, w) = read w
      in (userRegister, w))"

definition writeUserRegister :: "header \<Rightarrow> byte \<Rightarrow> TwoWire \<Rightarrow> TwoWire" where
  "writeUserRegister h val w =
     (let w = beginTransmission (HTU21D_ADDRESS h) w;
          w = write_byte (WRITE_USER_REG h) w;
          w = write_byte val w
      in endTransmission w)"

text \<open>The masks \<^verbatim>\<open>B01111110\<close> and \<^verbatim>\<open>B10000001\<close> are \<open>0x7E\<close> and \<open>0x81\<close>.\<close>

definition setResolution :: "header \<Rightarrow> byte \<Rightarrow> TwoWire \<Rightarrow> TwoWire" where
  "setResolution h resolution w =
     (let (userRegister, w) = readUserRegister h w;
          userRegister = userRegister AND 0x7E;
          resolution = resolution AND 0x81;
          userRegister = userRegister OR resolution
      in writeUserRegister h userRegister w)"

section \<open>The forward checksum of the specification\<close>

text \<open>
  Modelled from the spec: the sources only check a checksum, they never compute one. The
  specification speaks of the pairs \<^emph>\<open>produced by the forward CRC computation\<close> with the
  polynomial \<open>x\<^sup>8 + x\<^sup>5 + x\<^sup>4 + 1\<close> (\<open>0x0131\<close>), most significant bit first. \<open>crc8\<close> is
  that computation in its usual shift-register form: the register starts at 0, each
  message byte is added to it, and eight times the register moves one place to the left,
  the polynomial being subtracted whenever a 1 leaves the eight low bits.
\<close>

definition crc8_shift :: "uint16_t \<Rightarrow> uint16_t" where
  "crc8_shift c = (if bit c 7 then push_bit 1 c XOR 0x0131 else push_bit 1 c)"

definition crc8_byte :: "uint16_t \<Rightarrow> byte \<Rightarrow> uint16_t" where
  "crc8_byte c b = (crc8_shift ^^ 8) (c XOR ucast b)"

definition crc8 :: "uint16_t \<Rightarrow> byte" where
  "crc8 v = ucast (crc8_byte (crc8_byte 0 (ucast (drop_bit 8 v))) (ucast v))"

section \<open>Buses for the examples\<close>

text \<open>
  A header with the values of the sensor's data sheet, a bus on which nothing has
  happened yet, and three devices: one that never answers, one that answers request
  number \<open>k\<close> only (the first request is number 0), and one that answers every request
  with the content of its user register.
\<close>

definition datasheet_header :: header where
  "datasheet_header =
     \<lparr>HTU21D_ADDRESS = 0x40, TRIGGER_HUMD_MEASURE_NOHOLD = 0xF5,
      TRIGGER_TEMP_MEASURE_NOHOLD = 0xF3, WRITE_USER_REG = 0xE6, READ_USER_REG = 0xE7\<rparr>"

definition new_bus :: "(nat \<Rightarrow> byte list) \<Rightarrow> TwoWire" where
  "new_bus device =
     \<lparr>incoming = device, requests = 0, rxBuffer = [], txAddress = 0, txBuffer = [],
      sent = [], elapsed = 0\<rparr>"

definition silent :: "nat \<Rightarrow> byte list" where
  "silent n = []"

definition ready_at :: "nat \<Rightarrow> byte list \<Rightarrow> nat \<Rightarrow> byte list" where
  "ready_at k bs n = (if n = k then bs else [])"

definition register_holds :: "byte \<Rightarrow> nat \<Rightarrow> byte list" where
  "register_holds r n = [r]"

text \<open>
  What a bus shows of the last write to a register: the second byte of the last completed
  transmission, when that transmission is a command byte followed by one value.
\<close>

definition written_value :: "TwoWire \<Rightarrow> byte option" where
  "written_value w = (case rev (sent w) of (address, [command, val]) # earlier \<Rightarrow> Some val | _ \<Rightarrow> None)"

section \<open>The checksum\<close>

lemma checkCRC_0x00DC: "checkCRC 0x00DC 0x79 = 0"
  by code_simp

lemma checkCRC_0x683A: "checkCRC 0x683A 0x7C = 0"
  by code_simp

lemma checkCRC_0x4E85: "checkCRC 0x4E85 0x6B = 0"
  by code_simp

text \<open>
  C4. \<^verbatim>\<open>checkCRC\<close> returns 0 on each of the three vectors of the data sheet that its
  comment lists: \<open>0x00DC\<close> with \<open>0x79\<close>, \<open>0x683A\<close> with \<open>0x7C\<close>, \<open>0x4E85\<close> with \<open>0x6B\<close>.
\<close>

theorem checkCRC_datasheet_vectors:
  "checkCRC 0x00DC 0x79 = 0 \<and> checkCRC 0x683A 0x7C = 0 \<and> checkCRC 0x4E85 0x6B = 0"
  using checkCRC_0x00DC checkCRC_0x683A checkCRC_0x4E85 by (intro conjI)

subsection \<open>Both checksum computations are linear over XOR\<close>

text \<open>
  An iteration of \<^verbatim>\<open>checkCRC\<close> adds the divisor when one bit of the remainder is set; as
  that bit of \<open>r XOR s\<close> is the sum of the bits of \<open>r\<close> and of \<open>s\<close>, the iteration
  commutes with XOR, and so does the loop.
\<close>

lemma test_bit: "(r AND push_bit k 1 \<noteq> 0) = bit (r::uint32_t) k"
  by (simp add: and_exp_eq_0_iff_not_bit)

lemma crc_step_linear:
  "(if (r XOR s) AND push_bit k 1 \<noteq> 0 then (r XOR s) XOR d else r XOR s) =
   (if r AND push_bit k 1 \<noteq> 0 then r XOR d else r) XOR
   (if s AND push_bit k 1 \<noteq> 0 then s XOR d else (s::uint32_t))"
  unfolding test_bit by (simp add: bit_xor_iff ac_simps)

lemma crc_loop_linear:
  "crc_loop n i (r XOR s) d = crc_loop n i r d XOR crc_loop n i s d"
proof (induction n arbitrary: i r s d)
  case 0
  show ?case by simp
next
  case (Suc n)
  show ?case
    unfolding crc_loop.simps crc_step_linear Suc.IH ..
qed

text \<open>The loop looks at bits 23 down to 8 only: a remainder below 256 goes through unchanged.\<close>

lemma crc_loop_low:
  "crc_loop n i (ucast (c::byte)) d = ucast c" if "i + n \<le> 16"
  using that
proof (induction n arbitrary: i d)
  case 0
  show ?case by simp
next
  case (Suc n)
  then have "\<not> bit (ucast c :: uint32_t) (23 - i)"
    by (auto simp: bit_ucast_iff dest: bit_imp_le_length)
  with Suc show ?case
    by (simp add: test_bit del: push_bit_of_1)
qed

lemma checkCRC_split: "checkCRC v c = checkCRC v 0 XOR c"
proof -
  have "push_bit 8 (ucast v :: uint32_t) OR ucast c = push_bit 8 (ucast v) XOR ucast c"
    by (rule bit_word_eqI) (auto simp: bit_simps dest: bit_imp_le_length)
  moreover have "ucast (ucast c :: uint32_t) = c"
    by (rule bit_word_eqI) (auto simp: bit_simps)
  ultimately show ?thesis
    by (simp add: checkCRC_def crc_loop_linear crc_loop_low unsigned_xor_eq)
qed

lemma checkCRC_linear: "checkCRC (a XOR b) 0 = checkCRC a 0 XOR checkCRC b 0"
proof -
  have "push_bit 8 (ucast (a XOR b) :: uint32_t) = push_bit 8 (ucast a) XOR push_bit 8 (ucast b)"
    by (rule bit_word_eqI) (auto simp: bit_simps)
  then show ?thesis
    by (simp add: checkCRC_def crc_loop_linear unsigned_xor_eq)
qed

lemma crc8_shift_linear: "crc8_shift (a XOR b) = crc8_shift a XOR crc8_shift b"
  by (simp add: crc8_shift_def bit_xor_iff push_bit_xor ac_simps)

lemma crc8_shifts_linear:
  "(crc8_shift ^^ n) (a XOR b) = (crc8_shift ^^ n) a XOR (crc8_shift ^^ n) b"
  by (induction n arbitrary: a b) (simp_all add: crc8_shift_linear)

lemma crc8_byte_linear: "crc8_byte (c XOR c') (b XOR b') = crc8_byte c b XOR crc8_byte c' b'"
proof -
  have "(c XOR c') XOR ucast (b XOR b') = (c XOR ucast b) XOR (c' XOR ucast b')"
    by (simp add: unsigned_xor_eq ac_simps)
  then show ?thesis
    by (simp only: crc8_byte_def crc8_shifts_linear)
qed

lemma crc8_linear: "crc8 (a XOR b) = crc8 a XOR crc8 b"
proof -
  have z: "(0::uint16_t) = 0 XOR 0" by simp
  have "crc8_byte 0 (ucast (drop_bit 8 (a XOR b))) =
        crc8_byte 0 (ucast (drop_bit 8 a)) XOR crc8_byte 0 (ucast (drop_bit 8 b))"
    by (subst z, subst crc8_byte_linear [symmetric]) (simp add: unsigned_xor_eq drop_bit_xor)
  then show ?thesis
    by (simp add: crc8_def crc8_byte_linear unsigned_xor_eq)
qed

subsection \<open>The two computations on the sixteen one-bit messages\<close>

lemma checkCRC_basis:
  "checkCRC 0x0001 0 = 0x31" "checkCRC 0x0002 0 = 0x62"
  "checkCRC 0x0004 0 = 0xC4" "checkCRC 0x0008 0 = 0xB9"
  "checkCRC 0x0010 0 = 0x43" "checkCRC 0x0020 0 = 0x86"
  "checkCRC 0x0040 0 = 0x3D" "checkCRC 0x0080 0 = 0x7A"
  "checkCRC 0x0100 0 = 0xF4" "checkCRC 0x0200 0 = 0xD9"
  "checkCRC 0x0400 0 = 0x83" "checkCRC 0x0800 0 = 0x37"
  "checkCRC 0x1000 0 = 0x6E" "checkCRC 0x2000 0 = 0xDC"
  "checkCRC 0x4000 0 = 0x89" "checkCRC 0x8000 0 = 0x23"
  by code_simp+

lemma crc8_basis:
  "crc8 0x0001 = 0x31" "crc8 0x0002 = 0x62" "crc8 0x0004 = 0xC4" "crc8 0x0008 = 0xB9"
  "crc8 0x0010 = 0x43" "crc8 0x0020 = 0x86" "crc8 0x0040 = 0x3D" "crc8 0x0080 = 0x7A"
  "crc8 0x0100 = 0xF4" "crc8 0x0200 = 0xD9" "crc8 0x0400 = 0x83" "crc8 0x0800 = 0x37"
  "crc8 0x1000 = 0x6E" "crc8 0x2000 = 0xDC" "crc8 0x4000 = 0x89" "crc8 0x8000 = 0x23"
  by code_simp+

lemma lt16_cases:
  "k < 16 \<Longrightarrow> k = 0 \<or> k = 1 \<or> k = 2 \<or> k = 3 \<or> k = 4 \<or> k = 5 \<or> k = 6 \<or> k = 7 \<or>
     k = 8 \<or> k = 9 \<or> k = 10 \<or> k = 11 \<or> k = 12 \<or> k = 13 \<or> k = 14 \<or> k = (15::nat)"
  by arith

lemma crc_basis_agree: "k < 16 \<Longrightarrow> crc8 (push_bit k 1) = checkCRC (push_bit k 1) 0"
  by (drule lt16_cases) (elim disjE; simp add: checkCRC_basis crc8_basis)

lemma crc_basis_nonzero: "k < 16 \<Longrightarrow> checkCRC (push_bit k 1) 0 \<noteq> 0"
  by (drule lt16_cases) (elim disjE; simp add: checkCRC_basis)

subsection \<open>From the one-bit messages to all messages\<close>

lemma take_bit_Suc_xor:
  "take_bit (Suc n) (v::uint16_t) = take_bit n v XOR (if bit v n then push_bit n 1 else 0)"
  by (rule bit_word_eqI) (auto simp: bit_simps less_Suc_eq)

lemma xor_linear_zero:
  fixes f :: "uint16_t \<Rightarrow> byte"
  assumes lin: "\<And>a b. f (a XOR b) = f a XOR f b"
    and basis: "\<And>k. k < 16 \<Longrightarrow> f (push_bit k 1) = 0"
  shows "f v = 0"
proof -
  have f0: "f 0 = 0"
    using lin [of 0 0] by simp
  have "n \<le> 16 \<Longrightarrow> f (take_bit n v) = 0" for n
  proof (induction n)
    case 0
    show ?case by (simp add: f0)
  next
    case (Suc n)
    then have "f (take_bit n v) = 0" "n < 16" by simp_all
    then show ?case
      unfolding take_bit_Suc_xor lin by (simp add: f0 basis del: push_bit_of_1)
  qed
  from this [of 16] have "f (take_bit 16 v) = 0" by simp
  moreover have "take_bit 16 v = v"
    using take_bit_length_eq [of v] by simp
  ultimately show ?thesis by simp
qed

lemma word_xor_eq_0: "a XOR b = 0 \<longleftrightarrow> a = (b::'a::len word)"
  by (metis bit.xor_left_self xor.right_neutral)

lemma checkCRC_zero_checksum: "checkCRC v 0 = crc8 v"
proof -
  have "crc8 v XOR checkCRC v 0 = 0"
  proof (rule xor_linear_zero [where f = "\<lambda>v. crc8 v XOR checkCRC v 0"])
    fix a b :: uint16_t
    show "crc8 (a XOR b) XOR checkCRC (a XOR b) 0 =
          (crc8 a XOR checkCRC a 0) XOR (crc8 b XOR checkCRC b 0)"
      by (simp add: crc8_linear checkCRC_linear ac_simps)
  next
    fix k :: nat
    assume "k < 16"
    then show "crc8 (push_bit k 1) XOR checkCRC (push_bit k 1) 0 = 0"
      by (simp add: crc_basis_agree del: push_bit_of_1)
  qed
  then show ?thesis
    by (simp add: word_xor_eq_0)
qed

lemma checkCRC_accepts_iff: "checkCRC v c = 0 \<longleftrightarrow> c = crc8 v"
  by (subst checkCRC_split) (auto simp: checkCRC_zero_checksum word_xor_eq_0)

lemma checkCRC_flip_value:
  "k < 16 \<Longrightarrow> checkCRC (v XOR push_bit k 1) (crc8 v) \<noteq> 0"
proof -
  assume k: "k < 16"
  have "checkCRC (v XOR push_bit k 1) (crc8 v) = (crc8 v XOR crc8 (push_bit k 1)) XOR crc8 v"
    by (subst checkCRC_split) (simp only: checkCRC_zero_checksum crc8_linear)
  also have "\<dots> = checkCRC (push_bit k 1) 0"
    by (simp only: checkCRC_zero_checksum) (simp add: ac_simps)
  finally show ?thesis
    using crc_basis_nonzero [OF k] by simp
qed

lemma checkCRC_flip_checksum:
  "k < 8 \<Longrightarrow> checkCRC v (crc8 v XOR push_bit k 1) \<noteq> 0"
proof -
  assume k: "k < 8"
  have "checkCRC v (crc8 v XOR push_bit k 1) = crc8 v XOR (crc8 v XOR push_bit k 1)"
    by (subst checkCRC_split) (simp only: checkCRC_zero_checksum)
  also have "\<dots> = push_bit k 1"
    by simp
  finally have "checkCRC v (crc8 v XOR push_bit k 1) = push_bit k 1" .
  moreover have "push_bit k (1::byte) \<noteq> 0"
    using k by (simp add: exp_eq_zero_iff)
  ultimately show ?thesis by simp
qed

text \<open>
  C5. \<^verbatim>\<open>checkCRC\<close> accepts every pair of a value and its forward checksum \<open>crc8\<close>, and
  rejects the pair once a single bit of the 16-bit value (\<open>k < 16\<close>) or a single bit of
  the 8-bit checksum (\<open>k < 8\<close>) is flipped.
\<close>

theorem checkCRC_single_bit_errors:
  "checkCRC v (crc8 v) = 0 \<and>
   (\<forall>k < 16. checkCRC (v XOR push_bit k 1) (crc8 v) \<noteq> 0) \<and>
   (\<forall>k < 8. checkCRC v (crc8 v XOR push_bit k 1) \<noteq> 0)"
  using checkCRC_accepts_iff [of v "crc8 v"] checkCRC_flip_value [of _ v]
    checkCRC_flip_checksum [of _ v]
  by blast

theorem checkCRC_single_bit_errors_witness:
  "crc8 0x683A = 0x7C \<and> checkCRC 0x683A 0x7C = 0 \<and>
   (3::nat) < 16 \<and> checkCRC (0x683A XOR push_bit 3 1) 0x7C \<noteq> 0 \<and>
   (5::nat) < 8 \<and> checkCRC 0x683A (0x7C XOR push_bit 5 1) \<noteq> 0"
proof -
  have c: "crc8 0x683A = 0x7C"
    by code_simp
  from checkCRC_single_bit_errors [of "0x683A"] have
    "checkCRC 0x683A (crc8 0x683A) = 0"
    "(3::nat) < 16 \<longrightarrow> checkCRC (0x683A XOR push_bit 3 1) (crc8 0x683A) \<noteq> 0"
    "(5::nat) < 8 \<longrightarrow> checkCRC 0x683A (crc8 0x683A XOR push_bit 5 1) \<noteq> 0"
    by blast+
  then show ?thesis
    unfolding c by simp
qed

section \<open>The polling loop\<close>

lemma MAX_COUNTER_10: "MAX_COUNTER = 10"
  by (simp add: MAX_COUNTER_def MAX_WAIT_def DELAY_INTERVAL_def)

lemma counter_step: "unat (counter::byte) < MAX_COUNTER \<Longrightarrow> unat (counter + 1) = Suc (unat counter)"
  by (simp add: MAX_COUNTER_10 unat_word_ariths)

lemma poll_stop:
  "\<not> (unat counter < MAX_COUNTER \<and> toRead \<noteq> 3) \<Longrightarrow> poll h counter toRead w = (counter, toRead, w)"
  by (subst poll.simps) auto

lemma poll_step:
  "unat counter < MAX_COUNTER \<Longrightarrow> toRead \<noteq> 3 \<Longrightarrow>
   poll h counter toRead w =
     poll h (counter + 1) (of_nat (length (take 3 (incoming w (requests w)))))
       (w\<lparr>elapsed := elapsed w + DELAY_INTERVAL,
          rxBuffer := take 3 (incoming w (requests w)),
          requests := Suc (requests w)\<rparr>)"
  by (subst poll.simps) (simp add: requestFrom_def delay_def Let_def)

text \<open>What the loop leaves behind, in terms of the number of iterations it made.\<close>

lemma poll_effect:
  assumes "poll h counter toRead w = (counter', toRead', w')"
  shows "\<exists>k. unat counter' = unat counter + k \<and>
             requests w' = requests w + k \<and>
             elapsed w' = elapsed w + DELAY_INTERVAL * k \<and>
             incoming w' = incoming w \<and> sent w' = sent w \<and>
             (unat counter \<le> MAX_COUNTER \<longrightarrow> unat counter' \<le> MAX_COUNTER)"
  using assms
proof (induction h counter toRead w rule: poll.induct)
  case (1 h counter toRead w)
  show ?case
  proof (cases "unat counter < MAX_COUNTER \<and> toRead \<noteq> 3")
    case False
    with "1.prems" have "counter' = counter" "w' = w"
      by (simp_all add: poll_stop)
    then show ?thesis by simp
  next
    case True
    let ?bs = "take 3 (incoming w (requests w))"
    let ?w2 = "w\<lparr>elapsed := elapsed w + DELAY_INTERVAL, rxBuffer := ?bs,
                  requests := Suc (requests w)\<rparr>"
    have r: "requestFrom (HTU21D_ADDRESS h) 3 (delay DELAY_INTERVAL w) =
             (of_nat (length ?bs), ?w2)"
      by (simp add: requestFrom_def delay_def Let_def)
    from True "1.prems"
    have p: "poll h (counter + 1) (of_nat (length ?bs)) ?w2 = (counter', toRead', w')"
      by (simp add: poll_step)
    from True have u: "unat (counter + 1) = Suc (unat counter)"
      by (simp add: counter_step)
    from "1.IH" [OF True refl r [symmetric] refl p] obtain k where
      k: "unat counter' = unat (counter + 1) + k" "requests w' = requests ?w2 + k"
         "elapsed w' = elapsed ?w2 + DELAY_INTERVAL * k"
         "incoming w' = incoming ?w2" "sent w' = sent ?w2"
         "unat (counter + 1) \<le> MAX_COUNTER \<longrightarrow> unat counter' \<le> MAX_COUNTER"
      by blast
    from k u True show ?thesis
      by (intro exI [of _ "Suc k"]) simp
  qed
qed

lemma poll_never_ready:
  assumes "\<forall>n. length (incoming w n) < 3" and "toRead \<noteq> 3" and "unat counter \<le> MAX_COUNTER"
  shows "unat (fst (poll h counter toRead w)) = MAX_COUNTER"
  using assms
proof (induction h counter toRead w rule: poll.induct)
  case (1 h counter toRead w)
  show ?case
  proof (cases "unat counter < MAX_COUNTER")
    case False
    with "1.prems" show ?thesis by (simp add: poll_stop)
  next
    case True
    let ?bs = "take 3 (incoming w (requests w))"
    let ?w2 = "w\<lparr>elapsed := elapsed w + DELAY_INTERVAL, rxBuffer := ?bs,
                  requests := Suc (requests w)\<rparr>"
    have r: "requestFrom (HTU21D_ADDRESS h) 3 (delay DELAY_INTERVAL w) =
             (of_nat (length ?bs), ?w2)"
      by (simp add: requestFrom_def delay_def Let_def)
    from "1.prems"(1) have "length ?bs < 3" by simp
    then have "length ?bs = 0 \<or> length ?bs = 1 \<or> length ?bs = 2" by arith
    then have n3: "(of_nat (length ?bs) :: byte) \<noteq> 3" by auto
    from True have u: "unat (counter + 1) \<le> MAX_COUNTER"
      by (simp add: counter_step)
    from True "1.prems"(2) have t: "unat counter < MAX_COUNTER \<and> toRead \<noteq> 3" by simp
    have "unat (fst (poll h (counter + 1) (of_nat (length ?bs)) ?w2)) = MAX_COUNTER"
      using "1.prems"(1) by (intro "1.IH" [OF t refl r [symmetric] refl _ n3 u]) simp
    with True "1.prems"(2) show ?thesis
      by (simp add: poll_step)
  qed
qed

section \<open>The three exits of readValue\<close>

lemma status_bits_clear: "(rawValue AND 0xFFFC) AND 3 = (0::uint16_t)"
  by (simp add: and.assoc)

lemma low2_mod4: "unat (x AND 3) = unat (x::uint16_t) mod 4"
proof -
  have "x AND 3 = take_bit 2 x"
    by (simp add: take_bit_eq_mask mask_eq_exp_minus_1)
  then show ?thesis
    by (simp add: unsigned_take_bit_eq take_bit_eq_mod unat_mod)
qed

lemma masked_not_sentinel:
  "rawValue AND 0xFFFC \<noteq> ERROR_I2C_TIMEOUT" "rawValue AND 0xFFFC \<noteq> ERROR_BAD_CRC"
proof -
  have "ERROR_I2C_TIMEOUT AND 3 \<noteq> 0" "ERROR_BAD_CRC AND 3 \<noteq> 0"
    by (simp_all add: ERROR_I2C_TIMEOUT_def ERROR_BAD_CRC_def)
  then show "rawValue AND 0xFFFC \<noteq> ERROR_I2C_TIMEOUT" "rawValue AND 0xFFFC \<noteq> ERROR_BAD_CRC"
    using status_bits_clear [of rawValue] by auto
qed

lemma readValue_by_exit:
  "fst (readValue h cmd w) =
     (case readValue_exit h cmd w of
        Timeout \<Rightarrow> ERROR_I2C_TIMEOUT
      | CrcMismatch \<Rightarrow> ERROR_BAD_CRC
      | Measured rawValue \<Rightarrow> rawValue AND 0xFFFC)"
  by (simp add: readValue_def readValue_exit_def Let_def split: prod.splits)

lemma sentinels_differ: "ERROR_I2C_TIMEOUT \<noteq> ERROR_BAD_CRC"
  by (simp add: ERROR_I2C_TIMEOUT_def ERROR_BAD_CRC_def)

lemma readValue_timeout_iff:
  "fst (readValue h cmd w) = ERROR_I2C_TIMEOUT \<longleftrightarrow> readValue_exit h cmd w = Timeout"
  using masked_not_sentinel(1) sentinels_differ
  by (auto simp: readValue_by_exit split: exit.splits)

lemma readValue_bad_crc_iff:
  "fst (readValue h cmd w) = ERROR_BAD_CRC \<longleftrightarrow> readValue_exit h cmd w = CrcMismatch"
  using masked_not_sentinel(2) sentinels_differ
  by (auto simp: readValue_by_exit split: exit.splits)

lemma read_keeps:
  "requests (snd (read w)) = requests w" "elapsed (snd (read w)) = elapsed w"
  "sent (snd (read w)) = sent w" "incoming (snd (read w)) = incoming w"
  by (simp_all add: read_def split: list.splits)

lemma readValue_effect:
  "\<exists>k \<le> MAX_COUNTER. requests (snd (readValue h cmd w)) = requests w + k \<and>
      elapsed (snd (readValue h cmd w)) = elapsed w + DELAY_INTERVAL * k"
proof -
  let ?w0 = "endTransmission (write_byte cmd (beginTransmission (HTU21D_ADDRESS h) w))"
  obtain counter toRead w1 where p: "poll h 0 0 ?w0 = (counter, toRead, w1)"
    by (cases "poll h 0 0 ?w0")
  from poll_effect [OF p] obtain k where
    k: "unat counter = k" "requests w1 = requests ?w0 + k"
       "elapsed w1 = elapsed ?w0 + DELAY_INTERVAL * k" "unat counter \<le> MAX_COUNTER"
    by auto
  have w0: "requests ?w0 = requests w" "elapsed ?w0 = elapsed w"
    by (simp_all add: endTransmission_def write_byte_def beginTransmission_def)
  have "requests (snd (readValue h cmd w)) = requests w1 \<and>
        elapsed (snd (readValue h cmd w)) = elapsed w1"
    by (simp add: readValue_def Let_def p read_keeps split: prod.splits)
       (metis read_keeps(1,2) snd_conv)
  with k w0 show ?thesis by auto
qed

lemma readValue_never_ready:
  assumes "\<forall>n. length (incoming w n) < 3"
  shows "fst (readValue h cmd w) = ERROR_I2C_TIMEOUT"
proof -
  let ?w0 = "endTransmission (write_byte cmd (beginTransmission (HTU21D_ADDRESS h) w))"
  have "incoming ?w0 = incoming w"
    by (simp add: endTransmission_def write_byte_def beginTransmission_def)
  with assms have "unat (fst (poll h 0 0 ?w0)) = MAX_COUNTER"
    by (intro poll_never_ready) simp_all
  moreover obtain counter toRead w1 where "poll h 0 0 ?w0 = (counter, toRead, w1)"
    by (cases "poll h 0 0 ?w0")
  ultimately show ?thesis
    by (simp add: readValue_def Let_def)
qed

lemma take3_ready: "(of_nat (length (take 3 bs)) :: byte) \<noteq> 3 \<longleftrightarrow> length (bs::byte list) < 3"
proof -
  have "length (take 3 bs) \<le> 3" by simp
  then have "length (take 3 bs) = 0 \<or> length (take 3 bs) = 1 \<or> length (take 3 bs) = 2 \<or>
        length (take 3 bs) = 3"
    by arith
  moreover have "length (take 3 bs) = 3 \<longleftrightarrow> \<not> length bs < 3"
    by (simp add: min_def)
  ultimately show ?thesis by auto
qed

lemma poll_ceiling_iff:
  assumes "unat counter \<le> MAX_COUNTER"
  shows "unat (fst (poll h counter toRead w)) = MAX_COUNTER \<longleftrightarrow>
         unat counter = MAX_COUNTER \<or>
         (toRead \<noteq> 3 \<and> (\<forall>i. unat counter + i < 9 \<longrightarrow> length (incoming w (requests w + i)) < 3))"
  using assms
proof (induction h counter toRead w rule: poll.induct)
  case (1 h counter toRead w)
  show ?case
  proof (cases "unat counter < MAX_COUNTER \<and> toRead \<noteq> 3")
    case False
    with "1.prems" show ?thesis by (auto simp: poll_stop)
  next
    case True
    note running = this
    let ?bs = "take 3 (incoming w (requests w))"
    let ?w2 = "w\<lparr>elapsed := elapsed w + DELAY_INTERVAL, rxBuffer := ?bs,
                  requests := Suc (requests w)\<rparr>"
    have r: "requestFrom (HTU21D_ADDRESS h) 3 (delay DELAY_INTERVAL w) =
             (of_nat (length ?bs), ?w2)"
      by (simp add: requestFrom_def delay_def Let_def)
    from running have u: "unat (counter + 1) = Suc (unat counter)"
      by (simp add: counter_step)
    with running have le: "unat (counter + 1) \<le> MAX_COUNTER" by simp
    have step: "poll h counter toRead w = poll h (counter + 1) (of_nat (length ?bs)) ?w2"
      using running by (simp add: poll_step)
    note ih = "1.IH" [OF running refl r [symmetric] refl le]
    show ?thesis
    proof (cases "unat counter = 9")
      case True
      with ih u running show ?thesis
        unfolding step by (simp add: MAX_COUNTER_10)
    next
      case False
      with running have lt: "unat counter < 9" by (simp add: MAX_COUNTER_10)
      have "(\<forall>i. unat counter + i < 9 \<longrightarrow> length (incoming w (requests w + i)) < 3) \<longleftrightarrow>
            length (incoming w (requests w)) < 3 \<and>
            (\<forall>i. Suc (unat counter) + i < 9 \<longrightarrow> length (incoming w (Suc (requests w) + i)) < 3)"
        (is "?L \<longleftrightarrow> ?R")
      proof
        assume l: ?L
        from l [rule_format, of 0] lt have "length (incoming w (requests w)) < 3" by simp
        moreover have "\<forall>i. Suc (unat counter) + i < 9 \<longrightarrow>
            length (incoming w (Suc (requests w) + i)) < 3"
          using l [rule_format, of "Suc i" for i] by simp
        ultimately show ?R by simp
      next
        assume r: ?R
        show ?L
        proof (intro allI impI)
          fix i assume i: "unat counter + i < 9"
          show "length (incoming w (requests w + i)) < 3"
          proof (cases i)
            case 0
            with r show ?thesis by simp
          next
            case (Suc j)
            with i r [THEN conjunct2, rule_format, of j] show ?thesis by simp
          qed
        qed
      qed
      with ih u lt running show ?thesis
        unfolding step by (simp add: MAX_COUNTER_10 take3_ready del: length_take)
    qed
  qed
qed

lemma readValue_timeout_iff_first_nine:
  "fst (readValue h cmd w) = ERROR_I2C_TIMEOUT \<longleftrightarrow>
   (\<forall>i < 9. length (incoming w (requests w + i)) < 3)"
proof -
  let ?w0 = "endTransmission (write_byte cmd (beginTransmission (HTU21D_ADDRESS h) w))"
  have w0: "incoming ?w0 = incoming w" "requests ?w0 = requests w"
    by (simp_all add: endTransmission_def write_byte_def beginTransmission_def)
  obtain counter toRead w1 where p: "poll h 0 0 ?w0 = (counter, toRead, w1)"
    by (cases "poll h 0 0 ?w0")
  have "readValue_exit h cmd w = Timeout \<longleftrightarrow> unat counter = MAX_COUNTER"
    by (simp add: readValue_exit_def Let_def p split: prod.splits)
  also have "\<dots> \<longleftrightarrow> unat (fst (poll h 0 0 ?w0)) = MAX_COUNTER"
    by (simp add: p)
  also have "\<dots> \<longleftrightarrow> (\<forall>i < 9. length (incoming w (requests w + i)) < 3)"
    by (subst poll_ceiling_iff) (simp_all add: w0 MAX_COUNTER_10)
  finally show ?thesis
    by (simp add: readValue_timeout_iff)
qed

subsection \<open>Two runs\<close>

text \<open>
  The device that answers the tenth request with the data sheet's frame \<open>4E 85 6B\<close>,
  and the one that answers the ninth.
\<close>

lemma tenth_attempt:
  "readValue h cmd (new_bus (ready_at 9 [0x4E, 0x85, 0x6B])) =
     (ERROR_I2C_TIMEOUT,
      \<lparr>incoming = ready_at 9 [0x4E, 0x85, 0x6B], requests = 10, rxBuffer = [0x4E, 0x85, 0x6B],
       txAddress = HTU21D_ADDRESS h, txBuffer = [], sent = [(HTU21D_ADDRESS h, [cmd])],
       elapsed = 100\<rparr>)"
  by (simp add: readValue_def new_bus_def ready_at_def poll_step poll_stop MAX_COUNTER_10
      beginTransmission_def write_byte_def endTransmission_def DELAY_INTERVAL_def)

lemma ninth_attempt_exit:
  "readValue_exit h cmd (new_bus (ready_at 8 [0x4E, 0x85, 0x6B])) = Measured 0x4E85"
  by (simp add: readValue_exit_def new_bus_def ready_at_def poll_step poll_stop MAX_COUNTER_10
      beginTransmission_def write_byte_def endTransmission_def read_def checkCRC_0x4E85)

lemma ninth_attempt: "fst (readValue h cmd (new_bus (ready_at 8 [0x4E, 0x85, 0x6B]))) = 0x4E84"
  by (simp add: readValue_by_exit ninth_attempt_exit)

text \<open>
  C1. The claim is that \<^verbatim>\<open>readValue\<close> does not time out when some attempt within the
  ceiling, the last permitted one included, yields 3 bytes. Here the tenth request is
  answered with three bytes whose checksum is right, the request is made (ten requests
  after the call) and the bytes are in the buffer, and \<^verbatim>\<open>readValue\<close> returns
  \<open>ERROR_I2C_TIMEOUT\<close>: \<open>counter\<close> is 10 when the loop ends, whatever the last read gave.
\<close>

theorem readValue_tenth_attempt_times_out:
  "length (ready_at 9 [0x4E, 0x85, 0x6B] 9) = 3 \<and>
   checkCRC 0x4E85 0x6B = 0 \<and>
   fst (readValue h cmd (new_bus (ready_at 9 [0x4E, 0x85, 0x6B]))) = ERROR_I2C_TIMEOUT \<and>
   requests (snd (readValue h cmd (new_bus (ready_at 9 [0x4E, 0x85, 0x6B])))) = 10 \<and>
   rxBuffer (snd (readValue h cmd (new_bus (ready_at 9 [0x4E, 0x85, 0x6B])))) =
     [0x4E, 0x85, 0x6B]"
  by (simp add: tenth_attempt checkCRC_0x4E85) (simp add: ready_at_def)

text \<open>
  C6. Whenever \<^verbatim>\<open>readValue\<close> returns neither of the two error codes, the two low bits
  of the value it returns are zero.
\<close>

theorem readValue_status_bits:
  assumes "fst (readValue h cmd w) \<noteq> ERROR_I2C_TIMEOUT"
    and "fst (readValue h cmd w) \<noteq> ERROR_BAD_CRC"
  shows "fst (readValue h cmd w) AND 3 = 0 \<and>
         \<not> bit (fst (readValue h cmd w)) 0 \<and> \<not> bit (fst (readValue h cmd w)) 1"
proof -
  from assms obtain rawValue where "fst (readValue h cmd w) = rawValue AND 0xFFFC"
    by (auto simp: readValue_by_exit split: exit.splits)
  then show ?thesis
    by (simp add: status_bits_clear bit_and_iff)
qed

theorem readValue_status_bits_witness:
  "fst (readValue datasheet_header 0xF5 (new_bus (ready_at 8 [0x4E, 0x85, 0x6B]))) = 0x4E84 \<and>
   (0x4E84 :: uint16_t) \<noteq> ERROR_I2C_TIMEOUT \<and> (0x4E84 :: uint16_t) \<noteq> ERROR_BAD_CRC \<and>
   (0x4E84 :: uint16_t) AND 3 = 0"
  using readValue_status_bits [of datasheet_header "0xF5" "new_bus (ready_at 8 [0x4E, 0x85, 0x6B])"]
  by (simp add: ninth_attempt ERROR_I2C_TIMEOUT_def ERROR_BAD_CRC_def)

text \<open>
  C9. \<^verbatim>\<open>readValue\<close> returns on every bus (\<open>poll\<close> is a total function: its
  termination is proved where it is defined). It makes at most \<open>MAX_COUNTER = 10\<close>
  requests, one per iteration of the loop, and waits at most \<open>MAX_WAIT\<close>; and when no
  request ever yields 3 bytes it takes the time-out exit and returns
  \<open>ERROR_I2C_TIMEOUT\<close>.
\<close>

theorem readValue_bounded_polling:
  "MAX_COUNTER = 10 \<and>
   requests (snd (readValue h cmd w)) \<le> requests w + MAX_COUNTER \<and>
   elapsed (snd (readValue h cmd w)) \<le> elapsed w + MAX_WAIT \<and>
   ((\<forall>n. length (incoming w n) < 3) \<longrightarrow>
      fst (readValue h cmd w) = ERROR_I2C_TIMEOUT \<and> readValue_exit h cmd w = Timeout)"
proof -
  from readValue_effect [of h cmd w] obtain k where
    k: "k \<le> MAX_COUNTER" "requests (snd (readValue h cmd w)) = requests w + k"
       "elapsed (snd (readValue h cmd w)) = elapsed w + DELAY_INTERVAL * k"
    by blast
  from k(1) have "DELAY_INTERVAL * k \<le> MAX_WAIT"
    by (simp add: MAX_COUNTER_10 DELAY_INTERVAL_def MAX_WAIT_def)
  with k show ?thesis
    using readValue_never_ready [of w h cmd] readValue_timeout_iff [of h cmd w]
    by (simp add: MAX_COUNTER_10)
qed

theorem readValue_bounded_polling_witness:
  "(\<forall>n. length (incoming (new_bus silent) n) < 3) \<and>
   fst (readValue datasheet_header 0xF5 (new_bus silent)) = ERROR_I2C_TIMEOUT \<and>
   readValue_exit datasheet_header 0xF5 (new_bus silent) = Timeout \<and>
   requests (snd (readValue datasheet_header 0xF5 (new_bus silent))) \<le> 10"
  using readValue_bounded_polling [of datasheet_header "0xF5" "new_bus silent"]
  by (simp add: new_bus_def silent_def)

section \<open>setResolution\<close>

lemma byte_bit_cases:
  fixes P :: "nat \<Rightarrow> bool"
  assumes "pos < 8" "P 0" "P 1" "P 2" "P 3" "P 4" "P 5" "P 6" "P 7"
  shows "P pos"
proof -
  from assms(1) have "pos \<in> {7, 6, 5, 4, 3, 2, 1, 0}"
    by (simp add: numeral_eq_Suc less_Suc_eq) blast
  with assms(2-) show ?thesis
    by blast
qed

lemma bit_0x7E: "bit (0x7E :: byte) n \<longleftrightarrow> 1 \<le> n \<and> n \<le> 6"
proof (cases "n < 8")
  case True
  then show ?thesis by (rule byte_bit_cases) simp_all
next
  case False
  then have "\<not> bit (0x7E :: byte) n" by (auto dest: bit_imp_le_length)
  with False show ?thesis by simp
qed

lemma bit_0x81: "bit (0x81 :: byte) n \<longleftrightarrow> n = 0 \<or> n = 7"
proof (cases "n < 8")
  case True
  then show ?thesis by (rule byte_bit_cases) simp_all
next
  case False
  then have "\<not> bit (0x81 :: byte) n" by (auto dest: bit_imp_le_length)
  with False show ?thesis by simp
qed

lemma resolution_bits_kept:
  "n \<noteq> 7 \<Longrightarrow> n \<noteq> 0 \<Longrightarrow> bit (((r::byte) AND 0x7E) OR (resolution AND 0x81)) n = bit r n"
  unfolding bit_or_iff bit_and_iff bit_0x7E bit_0x81 by (auto dest: bit_imp_le_length)

lemma resolution_bits_set:
  "n = 7 \<or> n = 0 \<Longrightarrow> bit (((r::byte) AND 0x7E) OR (resolution AND 0x81)) n = bit resolution n"
  unfolding bit_or_iff bit_and_iff bit_0x7E bit_0x81 by auto

lemma setResolution_sent:
  assumes "incoming w (requests w) = r # rest"
  shows "sent (setResolution h resolution w) =
           sent w @ [(HTU21D_ADDRESS h, [READ_USER_REG h]),
                     (HTU21D_ADDRESS h, [WRITE_USER_REG h, (r AND 0x7E) OR (resolution AND 0x81)])]"
  using assms
  by (simp add: setResolution_def readUserRegister_def writeUserRegister_def Let_def
      beginTransmission_def write_byte_def endTransmission_def requestFrom_def read_def)

lemma setResolution_0x01:
  "written_value (setResolution datasheet_header 0x00 (new_bus (register_holds 0x01))) = Some 0x00"
  by (simp add: written_value_def setResolution_sent [where r = "0x01" and rest = "[]"]
      new_bus_def register_holds_def)

text \<open>
  C3, as stated: \<^verbatim>\<open>setResolution\<close> changes only bits 7 and 1 of the register. It does
  not hold: on a device whose register holds \<open>0x01\<close>, \<^verbatim>\<open>setResolution(0x00)\<close> writes
  \<open>0x00\<close>, so bit 0, which is neither bit 7 nor bit 1, has changed.
\<close>

theorem setResolution_bit_0_counterexample:
  "written_value (setResolution datasheet_header 0x00 (new_bus (register_holds 0x01))) = Some 0x00 \<and>
   \<not> (\<forall>n. n \<noteq> 7 \<and> n \<noteq> 1 \<longrightarrow> bit (0x00 :: byte) n = bit (0x01 :: byte) n)"
proof -
  have "\<not> (\<forall>n. n \<noteq> 7 \<and> n \<noteq> 1 \<longrightarrow> bit (0x00 :: byte) n = bit (0x01 :: byte) n)"
  proof
    assume "\<forall>n. n \<noteq> 7 \<and> n \<noteq> 1 \<longrightarrow> bit (0x00 :: byte) n = bit (0x01 :: byte) n"
    then have "(0::nat) \<noteq> 7 \<and> (0::nat) \<noteq> 1 \<longrightarrow> bit (0x00 :: byte) 0 = bit (0x01 :: byte) 0"
      by (rule spec)
    then show False
      by simp
  qed
  with setResolution_0x01 show ?thesis
    by simp
qed

text \<open>
  C3, amended: the resolution bits of the code are bits 7 and 0 (the masks are
  \<^verbatim>\<open>B01111110\<close> and \<^verbatim>\<open>B10000001\<close>). When the device answers the register read with \<open>r\<close>,
  \<^verbatim>\<open>setResolution\<close> writes \<open>(r AND 0x7E) OR (resolution AND 0x81)\<close>: every bit other than 7
  and 0 is the bit of \<open>r\<close>, and bits 7 and 0 are those of the argument.
\<close>

theorem setResolution_read_modify_write:
  assumes "incoming w (requests w) = r # rest"
  shows "\<exists>v. written_value (setResolution h resolution w) = Some v \<and>
             v = (r AND 0x7E) OR (resolution AND 0x81) \<and>
             (\<forall>n. n \<noteq> 7 \<and> n \<noteq> 0 \<longrightarrow> bit v n = bit r n) \<and>
             bit v 7 = bit resolution 7 \<and> bit v 0 = bit resolution 0"
proof -
  let ?v = "(r AND 0x7E) OR (resolution AND 0x81)"
  have "written_value (setResolution h resolution w) = Some ?v"
    by (simp add: written_value_def setResolution_sent [OF assms])
  moreover have "\<forall>n. n \<noteq> 7 \<and> n \<noteq> 0 \<longrightarrow> bit ?v n = bit r n"
    using resolution_bits_kept [of _ r resolution] by blast
  moreover have "bit ?v 7 = bit resolution 7" "bit ?v 0 = bit resolution 0"
    using resolution_bits_set [of 7 r resolution] resolution_bits_set [of 0 r resolution]
    by simp_all
  ultimately show ?thesis by blast
qed

theorem setResolution_read_modify_write_witness:
  "incoming (new_bus (register_holds 0x3A)) (requests (new_bus (register_holds 0x3A))) = [0x3A] \<and>
   written_value (setResolution datasheet_header 0x81 (new_bus (register_holds 0x3A))) = Some 0xBB"
  using setResolution_read_modify_write
    [of "new_bus (register_holds 0x3A)" "0x3A" "[]" datasheet_header "0x81"]
  by (simp add: new_bus_def register_holds_def)

section \<open>Rounding\<close>

lemma pow2_pos: "0 < (2::rat) powi k"
  by (simp add: power_int_def)

lemma bitlen_lower: "0 < m \<Longrightarrow> (2::rat) powi (bitlen m - 1) \<le> of_int m"
proof -
  assume m: "0 < m"
  then have b: "1 \<le> bitlen m"
    by (simp add: bitlen_alt_def)
  from bitlen_bounds [OF m] have "(2::int) ^ nat (bitlen m - 1) \<le> m" ..
  then have "(of_int ((2::int) ^ nat (bitlen m - 1)) :: rat) \<le> of_int m"
    by (simp only: of_int_le_iff)
  with b show ?thesis
    by (simp add: power_int_def)
qed

lemma bitlen_upper: "0 < m \<Longrightarrow> of_int m < (2::rat) powi (bitlen m)"
proof -
  assume m: "0 < m"
  from bitlen_bounds [OF m] have "m < (2::int) ^ nat (bitlen m)" ..
  then have "(of_int m :: rat) < of_int ((2::int) ^ nat (bitlen m))"
    by (simp only: of_int_less_iff)
  then show ?thesis
    by (simp add: power_int_def bitlen_nonneg)
qed

text \<open>\<open>ilog2\<close> is the exponent.\<close>

lemma ilog2_bounds:
  assumes "x \<noteq> 0"
  shows "2 powi (ilog2 x) \<le> \<bar>x\<bar>" and "\<bar>x\<bar> < 2 powi (ilog2 x + 1)"
proof -
  obtain n d where q: "quotient_of \<bar>x\<bar> = (n, d)"
    by (cases "quotient_of \<bar>x\<bar>")
  then have d: "0 < d"
    by (rule quotient_of_denom_pos)
  from q have x: "\<bar>x\<bar> = of_int n / of_int d"
    by (rule quotient_of_div)
  from assms have "0 < \<bar>x\<bar>" by simp
  with x d have n: "0 < n"
    by (simp add: zero_less_divide_iff)
  let ?k = "bitlen n - bitlen d"
  have lo: "2 powi (?k - 1) \<le> \<bar>x\<bar>"
  proof -
    have "(2::rat) powi (?k - 1) * of_int d \<le> 2 powi (?k - 1) * 2 powi (bitlen d)"
      using bitlen_upper [OF d] pow2_pos [of "?k - 1"] by (simp add: less_imp_le)
    also have "\<dots> = 2 powi (bitlen n - 1)"
      by (simp flip: power_int_add)
    also have "\<dots> \<le> of_int n"
      using n by (rule bitlen_lower)
    finally show ?thesis
      using d by (simp add: x pos_le_divide_eq)
  qed
  have hi: "\<bar>x\<bar> < 2 powi (?k + 1)"
  proof -
    have "of_int n < (2::rat) powi (bitlen n)"
      using n by (rule bitlen_upper)
    also have "\<dots> = 2 powi (?k + 1) * 2 powi (bitlen d - 1)"
      by (simp flip: power_int_add)
    also have "\<dots> \<le> 2 powi (?k + 1) * of_int d"
      using bitlen_lower [OF d] pow2_pos [of "?k + 1"] by simp
    finally show ?thesis
      using d by (simp add: x pos_divide_less_eq)
  qed
  have e: "ilog2 x = (if 2 powi ?k \<le> \<bar>x\<bar> then ?k else ?k - 1)"
    by (simp add: ilog2_def q)
  show "2 powi (ilog2 x) \<le> \<bar>x\<bar>"
    using lo by (simp add: e)
  show "\<bar>x\<bar> < 2 powi (ilog2 x + 1)"
    using hi by (simp add: e not_le)
qed

lemma rne_error: "\<bar>of_int (rne y) - y\<bar> \<le> 1 / 2"
proof -
  have "of_int \<lfloor>y\<rfloor> \<le> y" "y < of_int \<lfloor>y\<rfloor> + 1"
    by linarith+
  then show ?thesis
    by (auto simp: rne_def Let_def)
qed

lemma rne_of_int: "rne (of_int k) = k"
  by (simp add: rne_def)

text \<open>
  Rounding moves a number by at most half a unit in the last place: by \<open>\<bar>x\<bar> / 2\<^sup>p\<close> in
  the normal range, by half the spacing of the subnormals below it.
\<close>

lemma round_to_error:
  "\<bar>round_to fmt x - x\<bar> \<le>
     max (\<bar>x\<bar> * 2 powi (- int (precision fmt))) (2 powi (emin fmt - int (precision fmt)))"
proof (cases "x = 0")
  case True
  then show ?thesis
    by (simp add: round_to_def less_imp_le [OF pow2_pos] le_max_iff_disj)
next
  case False
  define e where "e = max (ilog2 x) (emin fmt)"
  define q :: rat where "q = 2 powi (e - int (precision fmt) + 1)"
  have q: "0 < q"
    by (simp add: q_def pow2_pos)
  have r: "round_to fmt x = of_int (rne (x / q)) * q"
    using False by (simp add: round_to_def Let_def e_def q_def)
  have "round_to fmt x - x = (of_int (rne (x / q)) - x / q) * q"
    using q by (simp add: r left_diff_distrib)
  then have "\<bar>round_to fmt x - x\<bar> = \<bar>of_int (rne (x / q)) - x / q\<bar> * q"
    using q by (simp only: abs_mult abs_of_pos)
  also have "\<dots> \<le> 1 / 2 * q"
    using rne_error [of "x / q"] q by (intro mult_right_mono) simp_all
  also have "\<dots> = 2 powi (e - int (precision fmt))"
    by (simp add: q_def power_int_add)
  finally have main: "\<bar>round_to fmt x - x\<bar> \<le> 2 powi (e - int (precision fmt))" .
  show ?thesis
  proof (cases "emin fmt \<le> ilog2 x")
    case True
    then have "e = ilog2 x"
      by (simp add: e_def)
    then have "(2::rat) powi (e - int (precision fmt)) =
               2 powi (ilog2 x) * 2 powi (- int (precision fmt))"
      by (simp add: power_int_add [symmetric])
    also have "\<dots> \<le> \<bar>x\<bar> * 2 powi (- int (precision fmt))"
      using ilog2_bounds(1) [OF False] pow2_pos
      by (intro mult_right_mono) (simp_all add: less_imp_le)
    finally show ?thesis
      using main by (simp add: le_max_iff_disj)
  next
    case False
    then have "e = emin fmt"
      by (simp add: e_def)
    with main show ?thesis
      by (simp add: le_max_iff_disj)
  qed
qed

text \<open>A number with a significand of at most \<open>p\<close> bits and an exponent in range is not moved.\<close>

lemma round_to_exact:
  assumes x: "x = of_int k * 2 powi j"
    and k: "\<bar>k\<bar> < 2 ^ precision fmt"
    and j: "emin fmt - int (precision fmt) + 1 \<le> j"
  shows "round_to fmt x = x"
proof (cases "x = 0")
  case True
  then show ?thesis
    by (simp add: round_to_def)
next
  case False
  define e where "e = max (ilog2 x) (emin fmt)"
  define i where "i = e - int (precision fmt) + 1"
  have "ilog2 x - int (precision fmt) + 1 \<le> j"
  proof -
    have "(2::rat) powi (ilog2 x) \<le> \<bar>x\<bar>"
      using False by (rule ilog2_bounds(1))
    also have "\<bar>x\<bar> = of_int \<bar>k\<bar> * 2 powi j"
      by (simp add: x abs_mult less_imp_le [OF pow2_pos])
    also have "\<dots> < of_int (2 ^ precision fmt) * 2 powi j"
      using k pow2_pos [of j] by (intro mult_strict_right_mono) (simp_all only: of_int_less_iff)
    also have "\<dots> = 2 powi (int (precision fmt) + j)"
      by (simp add: power_int_add)
    finally have lt: "(2::rat) powi (ilog2 x) < 2 powi (int (precision fmt) + j)" .
    have "ilog2 x < int (precision fmt) + j"
    proof (rule ccontr)
      assume "\<not> ilog2 x < int (precision fmt) + j"
      then have "(2::rat) powi (int (precision fmt) + j) \<le> 2 powi (ilog2 x)"
        by (intro power_int_increasing) simp_all
      with lt show False by simp
    qed
    then show ?thesis by simp
  qed
  with j have ij: "i \<le> j"
    by (simp add: i_def e_def)
  have "x / 2 powi i = of_int k * 2 powi (j - i)"
    by (simp add: x power_int_diff)
  also have "(2::rat) powi (j - i) = of_int (2 ^ nat (j - i))"
    using ij by (simp add: power_int_def)
  finally have "x / 2 powi i = of_int (k * 2 ^ nat (j - i))"
    by simp
  then have "of_int (rne (x / 2 powi i)) = x / 2 powi i"
    by (simp only: rne_of_int)
  then have "of_int (rne (x / 2 powi i)) * 2 powi i = x"
    using pow2_pos [of i] by simp
  then show ?thesis
    using False by (simp add: round_to_def Let_def e_def i_def)
qed

lemma round_to_within:
  assumes "emin fmt \<le> 0" and b: "\<bar>x\<bar> \<le> b"
  shows "\<bar>round_to fmt x - x\<bar> \<le> (b + 1) / 2 ^ precision fmt"
proof -
  let ?u = "(2::rat) powi (- int (precision fmt))"
  have u: "0 < ?u"
    by (rule pow2_pos)
  have "(2::rat) powi (emin fmt - int (precision fmt)) \<le> ?u"
    using assms(1) by (intro power_int_increasing) simp_all
  also have "?u \<le> (b + 1) * ?u"
    using b u by simp
  finally have 1: "(2::rat) powi (emin fmt - int (precision fmt)) \<le> (b + 1) * ?u" .
  have 2: "\<bar>x\<bar> * ?u \<le> (b + 1) * ?u"
    using b u by (intro mult_right_mono) simp_all
  have "(b + 1) * ?u = (b + 1) / 2 ^ precision fmt"
    by (simp add: power_int_minus_divide)
  with 1 2 round_to_error [of fmt x] show ?thesis
    by simp
qed

lemma to_double_error: "\<bar>x\<bar> \<le> b \<Longrightarrow> \<bar>to_double x - x\<bar> \<le> (b + 1) / 2 ^ 53"
  using round_to_within [of binary64 x b] by (simp add: to_double_def binary64_def)

lemma to_float_error: "\<bar>x\<bar> \<le> b \<Longrightarrow> \<bar>to_float x - x\<bar> \<le> (b + 1) / 2 ^ 24"
  using round_to_within [of binary32 x b] by (simp add: to_float_def binary32_def)

lemma to_double_exact:
  "\<bar>k\<bar> < 2 ^ 53 \<Longrightarrow> to_double (of_int k / 65536) = of_int k / 65536"
  unfolding to_double_def
  by (rule round_to_exact [where k = k and j = "- 16"])
     (simp_all add: binary64_def power_int_minus_divide)

lemma to_float_exact:
  "\<bar>k\<bar> < 2 ^ 24 \<Longrightarrow> to_float (of_int k / 65536) = of_int k / 65536"
  unfolding to_float_def
  by (rule round_to_exact [where k = k and j = "- 16"])
     (simp_all add: binary32_def power_int_minus_divide)

lemma to_double_int: "\<bar>k\<bar> < 2 ^ 53 \<Longrightarrow> to_double (of_int k) = of_int k"
  unfolding to_double_def
  by (rule round_to_exact [where k = k and j = 0]) (simp_all add: binary64_def)

lemma to_float_int: "\<bar>k\<bar> < 2 ^ 24 \<Longrightarrow> to_float (of_int k) = of_int k"
  unfolding to_float_def
  by (rule round_to_exact [where k = k and j = 0]) (simp_all add: binary32_def)

text \<open>
  Rounding is determined by these bounds: a number of the format that lies within less
  than half a unit in the last place of \<open>x\<close> is the value \<open>x\<close> rounds to. This is how the
  driver's arithmetic is evaluated on given numbers below.
\<close>

lemma rne_eqI: "\<bar>y - of_int k\<bar> < 1 / 2 \<Longrightarrow> rne y = k"
proof -
  assume a: "\<bar>y - of_int k\<bar> < 1 / 2"
  show ?thesis
  proof (cases "of_int k \<le> y")
    case True
    with a have "\<lfloor>y\<rfloor> = k" by linarith
    with a True show ?thesis by (simp add: rne_def)
  next
    case False
    with a have f: "\<lfloor>y\<rfloor> = k - 1" by linarith
    from False a have "1 / 2 < y - of_int (k - 1)" by simp
    with f show ?thesis by (simp add: rne_def)
  qed
qed

lemma ilog2_eqI:
  assumes "2 powi e \<le> \<bar>x\<bar>" and "\<bar>x\<bar> < 2 powi (e + 1)"
  shows "ilog2 x = e"
proof -
  have "x \<noteq> 0"
  proof
    assume "x = 0"
    with assms(1) have "(2::rat) powi e \<le> 0" by simp
    with pow2_pos [of e] show False by linarith
  qed
  note b = ilog2_bounds [OF this]
  have "\<not> ilog2 x < e"
  proof
    assume "ilog2 x < e"
    then have "(2::rat) powi (ilog2 x + 1) \<le> 2 powi e"
      by (intro power_int_increasing) simp_all
    with b(2) assms(1) show False by simp
  qed
  moreover have "\<not> e < ilog2 x"
  proof
    assume "e < ilog2 x"
    then have "(2::rat) powi (e + 1) \<le> 2 powi (ilog2 x)"
      by (intro power_int_increasing) simp_all
    with b(1) assms(2) show False by simp
  qed
  ultimately show ?thesis by simp
qed

lemma round_to_eqI:
  assumes lo: "2 powi e \<le> \<bar>x\<bar>" and hi: "\<bar>x\<bar> < 2 powi (e + 1)"
    and e: "emin fmt \<le> e"
    and j: "j = e - int (precision fmt) + 1"
    and near: "\<bar>x - of_int k * 2 powi j\<bar> < 2 powi j / 2"
  shows "round_to fmt x = of_int k * 2 powi j"
proof -
  have nz: "x \<noteq> 0"
  proof
    assume "x = 0"
    with lo have "(2::rat) powi e \<le> 0" by simp
    with pow2_pos [of e] show False by linarith
  qed
  have il: "ilog2 x = e"
    using lo hi by (rule ilog2_eqI)
  have q: "0 < (2::rat) powi j"
    by (rule pow2_pos)
  have "x / 2 powi j - of_int k = (x - of_int k * 2 powi j) / 2 powi j"
    using q by (simp add: diff_divide_distrib)
  then have "\<bar>x / 2 powi j - of_int k\<bar> = \<bar>x - of_int k * 2 powi j\<bar> / 2 powi j"
    using q by (simp only: abs_divide abs_of_pos)
  also have "\<dots> < 1 / 2"
    using near q by (simp add: pos_divide_less_eq)
  finally have "rne (x / 2 powi j) = k"
    by (rule rne_eqI)
  with nz e show ?thesis
    by (simp add: round_to_def Let_def il j max_def)
qed

section \<open>The two conversions\<close>

text \<open>No step of the humidity computation rounds: every intermediate value is a multiple of
  \<open>2\<^sup>-\<^sup>1\<^sup>6\<close> below \<open>2\<^sup>8\<close>.\<close>

lemma rh_exact: "rh raw = of_nat (unat raw) * (125 / 65536) - 6"
proof -
  define n where "n = uint raw"
  have n: "0 \<le> n" "n < 65536"
    using uint_bounded [of raw] by (simp_all add: n_def)
  have un: "(of_nat (unat raw) :: rat) = of_int n"
    by (simp add: n_def)
  have c: "to_double (to_double 125.0 / to_double 65536.0) = 125 / 65536"
    using to_double_int [of 125] to_double_int [of 65536] to_double_exact [of 125] by simp
  have six: "to_double 6.0 = 6"
    using to_double_int [of 6] by simp
  have p: "of_int n * (125 / 65536) = (of_int (n * 125) / 65536 :: rat)"
    by simp
  have t: "to_float (to_double (of_int (n * 125) / 65536)) = of_int (n * 125) / 65536"
    using n by (subst to_double_exact, simp, subst to_float_exact, simp_all)
  have d: "of_int (n * 125) / 65536 - 6 = (of_int (n * 125 - 393216) / 65536 :: rat)"
    by (simp add: diff_divide_distrib)
  have "to_float (to_double (of_int (n * 125) / 65536 - 6)) = of_int (n * 125) / 65536 - 6"
    unfolding d using n by (subst to_double_exact, simp, subst to_float_exact, simp_all)
  then show ?thesis
    by (simp only: rh_def Let_def un c t p six)
qed

lemma scale_factor_error:
  "\<bar>to_double (to_double 175.72 / to_double 65536.0) - 17572 / 100 / 65536\<bar> \<le> 3 / 2 ^ 53"
proof -
  define a where "a = to_double 175.72"
  have a: "\<bar>a - 17572 / 100\<bar> \<le> 177 / 2 ^ 53"
    using to_double_error [of "17572 / 100" 176] by (simp add: a_def)
  have s: "to_double 65536.0 = 65536"
    using to_double_int [of 65536] by simp
  from a have "\<bar>a / 65536\<bar> \<le> 1"
    unfolding abs_le_iff by simp
  then have "\<bar>to_double (a / 65536) - a / 65536\<bar> \<le> 2 / 2 ^ 53"
    using to_double_error [of "a / 65536" 1] by simp
  with a show ?thesis
    unfolding a_def [symmetric] s abs_le_iff by (simp; linarith)
qed

text \<open>
  The temperature computation rounds at every step. The result stays within
  \<open>1 / 40000\<close> of the exact value of the formula; nearly all of it comes from the two
  conversions to \<^verbatim>\<open>float\<close>, whose numbers lie a few millionths apart in this range.
\<close>

lemma realTemperature_error:
  "\<bar>realTemperature raw - (of_nat (unat raw) * (17572 / 100 / 65536) - 4685 / 100)\<bar> \<le> 1 / 40000"
proof -
  define n :: rat where "n = of_nat (unat raw)"
  have "unat raw < 65536"
    using unsigned_less [of raw, where ?'a = nat] by simp
  then have "unat raw \<le> 65535" by simp
  then have "(of_nat (unat raw) :: rat) \<le> of_nat 65535"
    by (simp only: of_nat_le_iff)
  moreover have "(0::rat) \<le> of_nat (unat raw)"
    by (simp only: of_nat_0_le_iff)
  ultimately have n: "0 \<le> n" "n \<le> 65535"
    unfolding n_def by simp_all
  define c where "c = to_double (to_double 175.72 / to_double 65536.0)"
  define c0 :: rat where "c0 = 17572 / 100 / 65536"
  have c: "\<bar>c - c0\<bar> \<le> 3 / 2 ^ 53"
    unfolding c_def c0_def by (rule scale_factor_error)
  define x where "x = n * c"
  define x0 where "x0 = n * c0"
  have "\<bar>x - x0\<bar> = n * \<bar>c - c0\<bar>"
    using n by (simp add: x_def x0_def right_diff_distrib [symmetric] abs_mult
        del: right_diff_distrib)
  also have "\<dots> \<le> 65535 * (3 / 2 ^ 53)"
    using n c by (intro mult_mono) simp_all
  also have "\<dots> \<le> 1 / 2 ^ 35"
    by simp
  finally have p: "\<bar>x - x0\<bar> \<le> 1 / 2 ^ 35" .
  have "n * c0 \<le> 65535 * c0" "0 \<le> n * c0"
    using n by (simp_all add: c0_def)
  then have p0: "0 \<le> x0" "x0 \<le> 176"
    by (simp_all add: x0_def c0_def)
  with p have pb: "\<bar>x\<bar> \<le> 177"
    unfolding abs_le_iff by (simp; linarith)
  define t1 where "t1 = to_double x"
  have t1: "\<bar>t1 - x\<bar> \<le> 178 / 2 ^ 53"
    unfolding t1_def using to_double_error [OF pb] by simp
  with pb have t1b: "\<bar>t1\<bar> \<le> 178"
    unfolding abs_le_iff by (simp; linarith)
  define t where "t = to_float t1"
  have t: "\<bar>t - t1\<bar> \<le> 179 / 2 ^ 24"
    unfolding t_def using to_float_error [OF t1b] by simp
  define b where "b = to_double 46.85"
  have b: "\<bar>b - 4685 / 100\<bar> \<le> 48 / 2 ^ 53"
    using to_double_error [of "4685 / 100" 47] by (simp add: b_def)
  have tt: "\<bar>t - x0\<bar> \<le> 180 / 2 ^ 24"
    using t t1 p unfolding abs_le_iff by (simp; linarith)
  with p0 b have db: "\<bar>t - b\<bar> \<le> 130"
    unfolding abs_le_iff by (simp; linarith)
  define s where "s = to_double (t - b)"
  have s: "\<bar>s - (t - b)\<bar> \<le> 131 / 2 ^ 53"
    unfolding s_def using to_double_error [OF db] by simp
  with db have sb: "\<bar>s\<bar> \<le> 131"
    unfolding abs_le_iff by (simp; linarith)
  have r: "\<bar>to_float s - s\<bar> \<le> 132 / 2 ^ 24"
    using to_float_error [OF sb] by simp
  have "realTemperature raw = to_float s"
    by (simp only: realTemperature_def Let_def s_def b_def t_def t1_def x_def c_def n_def)
  with r s b tt show ?thesis
    unfolding n_def [symmetric] c0_def [symmetric] x0_def [symmetric] abs_le_iff
    by (simp; linarith)
qed

text \<open>
  The ends of the temperature range, evaluated step by step: \<^verbatim>\<open>46.85\<close> and \<^verbatim>\<open>175.72\<close>
  as doubles, then each operation of lines 127 and 128.
\<close>

lemma to_double_46_85: "to_double 46.85 = 6593551329447117 / 2 ^ 47"
proof -
  have "round_to binary64 (4685 / 100) = of_int 6593551329447117 * 2 powi (- 47)"
    by (rule round_to_eqI [where e = 5]) (simp_all add: binary64_def)
  then show ?thesis
    by (simp add: to_double_def)
qed

lemma realTemperature_0: "realTemperature 0 = - 6140723 / 131072"
proof -
  have z: "to_float (to_double 0) = 0"
    by (simp add: to_float_def to_double_def round_to_def)
  have "round_to binary64 (- (6593551329447117 / 2 ^ 47)) = - (6593551329447117 / 2 ^ 47)"
    by (rule round_to_exact [where k = "- 6593551329447117" and j = "- 47"])
       (simp_all add: binary64_def)
  then have d: "to_double (- (6593551329447117 / 2 ^ 47)) = - (6593551329447117 / 2 ^ 47)"
    by (simp add: to_double_def)
  have "round_to binary32 (- (6593551329447117 / 2 ^ 47)) = of_int (- 12281446) * 2 powi (- 18)"
    by (rule round_to_eqI [where e = 5]) (simp_all add: binary32_def)
  then have f: "to_float (- (6593551329447117 / 2 ^ 47)) = - 6140723 / 131072"
    by (simp add: to_float_def)
  have n: "of_nat (unat (0::uint16_t)) * c = (0::rat)" for c
    by simp
  show ?thesis
    by (simp only: realTemperature_def Let_def n z to_double_46_85 diff_0 d f)
qed

lemma to_double_175_72: "to_double 175.72 = 6182597863449559 / 2 ^ 45"
proof -
  have "round_to binary64 (17572 / 100) = of_int 6182597863449559 * 2 powi (- 45)"
    by (rule round_to_eqI [where e = 7]) (simp_all add: binary64_def)
  then show ?thesis
    by (simp add: to_double_def)
qed

lemma realTemperature_65535: "realTemperature 65535 = 1055681 / 8192"
proof -
  have n: "of_nat (unat (65535::uint16_t)) = (65535::rat)"
    by simp
  have m: "to_double 65536.0 = 65536"
    using to_double_int [of 65536] by simp
  have "round_to binary64 (6182597863449559 / 2 ^ 45 / 65536) = 6182597863449559 / 2 ^ 45 / 65536"
    by (rule round_to_exact [where k = 6182597863449559 and j = "- 61"])
       (simp_all add: binary64_def)
  then have c: "to_double (6182597863449559 / 2 ^ 45 / 65536) = 6182597863449559 / 2 ^ 61"
    by (simp add: to_double_def)
  have "round_to binary64 (65535 * (6182597863449559 / 2 ^ 61)) =
        of_int 6182503524492902 * 2 powi (- 45)"
    by (rule round_to_eqI [where e = 7]) (simp_all add: binary64_def)
  then have p: "to_double (65535 * (6182597863449559 / 2 ^ 61)) = 6182503524492902 / 2 ^ 45"
    by (simp add: to_double_def)
  have "round_to binary32 (6182503524492902 / 2 ^ 45) = of_int 11515810 * 2 powi (- 16)"
    by (rule round_to_eqI [where e = 7]) (simp_all add: binary32_def)
  then have t: "to_float (6182503524492902 / 2 ^ 45) = 11515810 / 2 ^ 16"
    by (simp add: to_float_def)
  have "round_to binary64 (11515810 / 2 ^ 16 - 6593551329447117 / 2 ^ 47) =
        of_int 4534115584756941 * 2 powi (- 45)"
    by (rule round_to_eqI [where e = 7]) (simp_all add: binary64_def)
  then have s: "to_double (11515810 / 2 ^ 16 - 6593551329447117 / 2 ^ 47) =
                4534115584756941 / 2 ^ 45"
    by (simp add: to_double_def)
  have "round_to binary32 (4534115584756941 / 2 ^ 45) = of_int 8445448 * 2 powi (- 16)"
    by (rule round_to_eqI [where e = 7]) (simp_all add: binary32_def)
  then have r: "to_float (4534115584756941 / 2 ^ 45) = 1055681 / 8192"
    by (simp add: to_float_def)
  show ?thesis
    by (simp only: realTemperature_def Let_def n to_double_175_72 m c p t to_double_46_85 s r)
qed

lemma raw_bounds: "(0::rat) \<le> of_nat (unat (raw::uint16_t))" "(of_nat (unat raw) :: rat) \<le> 65535"
proof -
  have "unat raw < 65536"
    using unsigned_less [of raw, where ?'a = nat] by simp
  then have "unat raw \<le> 65535" by simp
  then have "(of_nat (unat raw) :: rat) \<le> of_nat 65535"
    by (simp only: of_nat_le_iff)
  then show "(of_nat (unat raw) :: rat) \<le> 65535" by simp
  show "(0::rat) \<le> of_nat (unat raw)"
    by (simp only: of_nat_0_le_iff)
qed

lemma rh_range: "- 6 \<le> rh raw" "rh raw < 119"
proof -
  define n :: rat where "n = of_nat (unat raw)"
  have n: "0 \<le> n" "n \<le> 65535"
    unfolding n_def by (rule raw_bounds)+
  have e: "rh raw = n * (125 / 65536) - 6"
    unfolding n_def by (rule rh_exact)
  from n show "- 6 \<le> rh raw" "rh raw < 119"
    unfolding e by simp_all
qed

lemma realTemperature_range: "- 46.85 \<le> realTemperature raw" "realTemperature raw < 128.87"
proof -
  define n :: rat where "n = of_nat (unat raw)"
  define x0 :: rat where "x0 = n * (17572 / 100 / 65536)"
  have n: "0 \<le> n" "n \<le> 65535"
    unfolding n_def by (rule raw_bounds)+
  then have x0: "x0 \<le> 65535 * (17572 / 100 / 65536)"
    by (simp add: x0_def)
  have e: "\<bar>realTemperature raw - (x0 - 4685 / 100)\<bar> \<le> 1 / 40000"
    unfolding x0_def n_def by (rule realTemperature_error)
  from e x0 show "realTemperature raw < 128.87"
    unfolding abs_le_iff by (simp; linarith)
  show "- 46.85 \<le> realTemperature raw"
  proof (cases "unat raw = 0")
    case True
    then have "raw = 0"
      by (simp add: unat_eq_0)
    then show ?thesis
      by (simp add: realTemperature_0)
  next
    case False
    then have "1 \<le> unat raw" by simp
    then have "(of_nat 1 :: rat) \<le> of_nat (unat raw)"
      by (simp only: of_nat_le_iff)
    then have "1 \<le> n"
      by (simp add: n_def)
    then have "17572 / 100 / 65536 \<le> x0"
      by (simp add: x0_def)
    with e show ?thesis
      unfolding abs_le_iff by (simp; linarith)
  qed
qed

section \<open>What readHumidity and readTemperature return\<close>

lemma sentinel_floats:
  "to_float (of_nat (unat ERROR_I2C_TIMEOUT)) = 998" "to_float (of_nat (unat ERROR_BAD_CRC)) = 999"
  using to_float_int [of 998] to_float_int [of 999]
  by (simp_all add: ERROR_I2C_TIMEOUT_def ERROR_BAD_CRC_def)

lemma readHumidity_by_exit:
  "fst (readHumidity h w) =
     (case readValue_exit h (TRIGGER_HUMD_MEASURE_NOHOLD h) w of
        Timeout \<Rightarrow> 998
      | CrcMismatch \<Rightarrow> 999
      | Measured rawValue \<Rightarrow> rh (rawValue AND 0xFFFC))"
proof -
  obtain v w' where r: "readValue h (TRIGGER_HUMD_MEASURE_NOHOLD h) w = (v, w')"
    by (cases "readValue h (TRIGGER_HUMD_MEASURE_NOHOLD h) w")
  then have v: "v = (case readValue_exit h (TRIGGER_HUMD_MEASURE_NOHOLD h) w of
        Timeout \<Rightarrow> ERROR_I2C_TIMEOUT | CrcMismatch \<Rightarrow> ERROR_BAD_CRC
      | Measured rawValue \<Rightarrow> rawValue AND 0xFFFC)"
    using readValue_by_exit [of h "TRIGGER_HUMD_MEASURE_NOHOLD h" w] by simp
  show ?thesis
    using masked_not_sentinel sentinels_differ
    by (simp add: readHumidity_def r v sentinel_floats [simplified] split: exit.splits)
qed

lemma readTemperature_by_exit:
  "fst (readTemperature h w) =
     (case readValue_exit h (TRIGGER_TEMP_MEASURE_NOHOLD h) w of
        Timeout \<Rightarrow> 998
      | CrcMismatch \<Rightarrow> 999
      | Measured rawValue \<Rightarrow> realTemperature (rawValue AND 0xFFFC))"
proof -
  obtain v w' where r: "readValue h (TRIGGER_TEMP_MEASURE_NOHOLD h) w = (v, w')"
    by (cases "readValue h (TRIGGER_TEMP_MEASURE_NOHOLD h) w")
  then have v: "v = (case readValue_exit h (TRIGGER_TEMP_MEASURE_NOHOLD h) w of
        Timeout \<Rightarrow> ERROR_I2C_TIMEOUT | CrcMismatch \<Rightarrow> ERROR_BAD_CRC
      | Measured rawValue \<Rightarrow> rawValue AND 0xFFFC)"
    using readValue_by_exit [of h "TRIGGER_TEMP_MEASURE_NOHOLD h" w] by simp
  show ?thesis
    using masked_not_sentinel sentinels_differ
    by (simp add: readTemperature_def r v sentinel_floats [simplified] split: exit.splits)
qed

lemma checkCRC_bad_frame: "checkCRC 0x4E85 0x6C \<noteq> 0"
  by code_simp

lemma silent_exit: "readValue_exit h cmd (new_bus silent) = Timeout"
  using readValue_never_ready [of "new_bus silent" h cmd]
  by (simp add: readValue_timeout_iff new_bus_def silent_def)

lemma bad_frame_exit: "readValue_exit h cmd (new_bus (ready_at 0 [0x4E, 0x85, 0x6C])) = CrcMismatch"
  by (simp add: readValue_exit_def new_bus_def ready_at_def poll_step poll_stop MAX_COUNTER_10
      beginTransmission_def write_byte_def endTransmission_def read_def checkCRC_bad_frame)

text \<open>
  C2, as stated: a failure of \<^verbatim>\<open>readHumidity\<close> or \<^verbatim>\<open>readTemperature\<close> reaches the caller
  as a result of its own kind, not as a number of the type of a reading. It does not
  hold: on a device that never answers \<^verbatim>\<open>readHumidity\<close> returns the \<^verbatim>\<open>float\<close> 998, and on
  a frame with a wrong checksum \<^verbatim>\<open>readTemperature\<close> returns the \<^verbatim>\<open>float\<close> 999.
\<close>

theorem failed_reads_return_numbers_counterexample:
  "readValue_exit datasheet_header (TRIGGER_HUMD_MEASURE_NOHOLD datasheet_header) (new_bus silent)
     = Timeout \<and>
   fst (readHumidity datasheet_header (new_bus silent)) = 998 \<and>
   readValue_exit datasheet_header (TRIGGER_TEMP_MEASURE_NOHOLD datasheet_header)
     (new_bus (ready_at 0 [0x4E, 0x85, 0x6C])) = CrcMismatch \<and>
   fst (readTemperature datasheet_header (new_bus (ready_at 0 [0x4E, 0x85, 0x6C]))) = 999"
  by (simp add: readHumidity_by_exit readTemperature_by_exit silent_exit bad_frame_exit)

text \<open>
  C2, amended: both functions return a \<^verbatim>\<open>float\<close> in every case. A time-out is the value
  998, a checksum error the value 999, and a measurement the conversion of the raw value
  with its status bits cleared.
\<close>

theorem failures_are_sentinel_values:
  "fst (readHumidity h w) =
     (case readValue_exit h (TRIGGER_HUMD_MEASURE_NOHOLD h) w of
        Timeout \<Rightarrow> 998
      | CrcMismatch \<Rightarrow> 999
      | Measured rawValue \<Rightarrow> rh (rawValue AND 0xFFFC)) \<and>
   fst (readTemperature h w) =
     (case readValue_exit h (TRIGGER_TEMP_MEASURE_NOHOLD h) w of
        Timeout \<Rightarrow> 998
      | CrcMismatch \<Rightarrow> 999
      | Measured rawValue \<Rightarrow> realTemperature (rawValue AND 0xFFFC))"
  using readHumidity_by_exit [of h w] readTemperature_by_exit [of h w] by (rule conjI)

lemma conversions_not_sentinel:
  "rh raw \<noteq> 998" "rh raw \<noteq> 999" "realTemperature raw \<noteq> 998" "realTemperature raw \<noteq> 999"
  using rh_range [of raw] realTemperature_range [of raw] by auto

text \<open>
  C7. The value returned tells the three outcomes apart: it is 998 exactly when the read
  timed out and 999 exactly when the checksum was wrong, for humidity and for temperature.
  No conversion of a 16-bit raw value gives either number: humidities lie in \<open>[-6, 119)\<close>
  and temperatures in \<open>[-46.85, 128.87)\<close>.
\<close>

theorem failed_reads_out_of_range:
  "(fst (readHumidity h w) = 998 \<longleftrightarrow>
      readValue_exit h (TRIGGER_HUMD_MEASURE_NOHOLD h) w = Timeout) \<and>
   (fst (readHumidity h w) = 999 \<longleftrightarrow>
      readValue_exit h (TRIGGER_HUMD_MEASURE_NOHOLD h) w = CrcMismatch) \<and>
   (fst (readTemperature h w) = 998 \<longleftrightarrow>
      readValue_exit h (TRIGGER_TEMP_MEASURE_NOHOLD h) w = Timeout) \<and>
   (fst (readTemperature h w) = 999 \<longleftrightarrow>
      readValue_exit h (TRIGGER_TEMP_MEASURE_NOHOLD h) w = CrcMismatch) \<and>
   - 6 \<le> rh raw \<and> rh raw < 119 \<and>
   - 46.85 \<le> realTemperature raw \<and> realTemperature raw < 128.87 \<and>
   rh raw \<noteq> 998 \<and> rh raw \<noteq> 999 \<and>
   realTemperature raw \<noteq> 998 \<and> realTemperature raw \<noteq> 999"
proof -
  have "fst (readHumidity h w) = 998 \<longleftrightarrow>
      readValue_exit h (TRIGGER_HUMD_MEASURE_NOHOLD h) w = Timeout"
    "fst (readHumidity h w) = 999 \<longleftrightarrow>
      readValue_exit h (TRIGGER_HUMD_MEASURE_NOHOLD h) w = CrcMismatch"
    by (simp_all add: readHumidity_by_exit conversions_not_sentinel split: exit.splits)
  moreover have "fst (readTemperature h w) = 998 \<longleftrightarrow>
      readValue_exit h (TRIGGER_TEMP_MEASURE_NOHOLD h) w = Timeout"
    "fst (readTemperature h w) = 999 \<longleftrightarrow>
      readValue_exit h (TRIGGER_TEMP_MEASURE_NOHOLD h) w = CrcMismatch"
    by (simp_all add: readTemperature_by_exit conversions_not_sentinel split: exit.splits)
  ultimately show ?thesis
    using rh_range [of raw] realTemperature_range [of raw] conversions_not_sentinel [of raw]
    by blast
qed

text \<open>
  C8. The humidity computed is exactly \<open>raw * (125 / 65536) - 6\<close>, and the temperature
  computed is within \<open>1 / 40000\<close> of \<open>raw * (175.72 / 65536) - 46.85\<close>, for every raw
  value; the decimal fractions on the right are exact rationals. At the ends of the range
  the humidity is \<open>-6\<close> and \<open>7798659 / 65536\<close>, about 118.998, and the temperature is
  \<open>-6140723 / 131072\<close>, the \<^verbatim>\<open>float\<close> next to -46.85, and \<open>1055681 / 8192\<close>, about 128.87.
\<close>

theorem unit_conversions:
  "rh raw = of_nat (unat raw) * (125.0 / 65536.0) - 6.0 \<and>
   \<bar>realTemperature raw - (of_nat (unat raw) * (175.72 / 65536.0) - 46.85)\<bar> \<le> 1 / 40000 \<and>
   rh 0 = - 6.0 \<and>
   rh 65535 = 7798659 / 65536 \<and> \<bar>rh 65535 - 118.998\<bar> \<le> 1 / 10000 \<and>
   realTemperature 0 = - 6140723 / 131072 \<and> \<bar>realTemperature 0 - (- 46.85)\<bar> \<le> 1 / 500000 \<and>
   realTemperature 65535 = 1055681 / 8192 \<and> \<bar>realTemperature 65535 - 128.87\<bar> \<le> 3 / 1000"
proof -
  have h: "rh raw = of_nat (unat raw) * (125.0 / 65536.0) - 6.0"
    using rh_exact [of raw] by simp
  have t: "\<bar>realTemperature raw - (of_nat (unat raw) * (175.72 / 65536.0) - 46.85)\<bar> \<le> 1 / 40000"
    using realTemperature_error [of raw] by simp
  have h0: "rh 0 = - 6.0"
    using rh_exact [of 0] by simp
  have h1: "rh 65535 = 7798659 / 65536" "\<bar>rh 65535 - 118.998\<bar> \<le> 1 / 10000"
    using rh_exact [of 65535] by simp_all
  have t0: "\<bar>realTemperature 0 - (- 46.85)\<bar> \<le> 1 / 500000"
    by (simp add: realTemperature_0)
  have t1: "\<bar>realTemperature 65535 - 128.87\<bar> \<le> 3 / 1000"
    by (simp add: realTemperature_65535)
  from h t h0 h1 realTemperature_0 t0 realTemperature_65535 t1 show ?thesis
    by (intro conjI)
qed

text \<open>
  C10. A value with the status bits masked is a multiple of 4, while the two error codes
  leave remainders 2 and 3, so a measurement is never one of them: \<^verbatim>\<open>readValue\<close> returns
  an error code exactly when it takes one of the two error exits, and after the
  measurement exit \<^verbatim>\<open>readHumidity\<close> and \<^verbatim>\<open>readTemperature\<close> convert the value instead of
  passing it on as an error.
\<close>

theorem sentinels_unambiguous:
  "(rawValue AND 0xFFFC) AND 3 = 0 \<and>
   unat (rawValue AND 0xFFFC) mod 4 = 0 \<and>
   unat ERROR_I2C_TIMEOUT mod 4 = 2 \<and>
   unat ERROR_BAD_CRC mod 4 = 3 \<and>
   rawValue AND 0xFFFC \<noteq> ERROR_I2C_TIMEOUT \<and>
   rawValue AND 0xFFFC \<noteq> ERROR_BAD_CRC \<and>
   ((fst (readValue h cmd w) = ERROR_I2C_TIMEOUT \<or> fst (readValue h cmd w) = ERROR_BAD_CRC) \<longleftrightarrow>
    (readValue_exit h cmd w = Timeout \<or> readValue_exit h cmd w = CrcMismatch)) \<and>
   (readValue_exit h (TRIGGER_HUMD_MEASURE_NOHOLD h) w = Measured rawValue \<longrightarrow>
      fst (readHumidity h w) = rh (rawValue AND 0xFFFC)) \<and>
   (readValue_exit h (TRIGGER_TEMP_MEASURE_NOHOLD h) w = Measured rawValue \<longrightarrow>
      fst (readTemperature h w) = realTemperature (rawValue AND 0xFFFC))"
proof -
  have "unat (rawValue AND 0xFFFC) mod 4 = 0"
    using low2_mod4 [of "rawValue AND 0xFFFC"] by (simp add: status_bits_clear)
  moreover have "unat ERROR_I2C_TIMEOUT mod 4 = 2" "unat ERROR_BAD_CRC mod 4 = 3"
    by (simp_all add: ERROR_I2C_TIMEOUT_def ERROR_BAD_CRC_def)
  ultimately show ?thesis
    using status_bits_clear [of rawValue] masked_not_sentinel [of rawValue]
      readValue_timeout_iff [of h cmd w] readValue_bad_crc_iff [of h cmd w]
    by (simp add: readHumidity_by_exit readTemperature_by_exit)
qed

theorem sentinels_unambiguous_witness:
  "readValue_exit datasheet_header (TRIGGER_HUMD_MEASURE_NOHOLD datasheet_header)
     (new_bus (ready_at 8 [0x4E, 0x85, 0x6B])) = Measured 0x4E85 \<and>
   fst (readHumidity datasheet_header (new_bus (ready_at 8 [0x4E, 0x85, 0x6B]))) =
     529821 / 16384 \<and>
   readValue_exit datasheet_header (TRIGGER_TEMP_MEASURE_NOHOLD datasheet_header)
     (new_bus (ready_at 8 [0x4E, 0x85, 0x6B])) = Measured 0x4E85 \<and>
   fst (readTemperature datasheet_header (new_bus (ready_at 8 [0x4E, 0x85, 0x6B]))) =
     realTemperature 0x4E84"
  using sentinels_unambiguous
    [of "0x4E85" datasheet_header "0xF5" "new_bus (ready_at 8 [0x4E, 0x85, 0x6B])"]
  by (simp add: ninth_attempt_exit rh_exact)

end
